theory Spec2Isabelle
  imports Main
begin

section \<open>JavaScript strings\<close>

text \<open>
  A JavaScript string is a sequence of UTF-16 code units, and \<open>length\<close>, \<open>substring\<close>,
  \<open>split\<close> and \<open>includes\<close> all count code units.  A string is therefore a list of
  natural numbers, one per code unit; \<open>js\<close> turns an ASCII literal into such a list, and
  characters outside ASCII (the pictographs of the messages) are written as their code units.
\<close>

type_synonym jsstring = "nat list"

definition js :: "string \<Rightarrow> jsstring" where
  "js s = map of_char s"

text \<open>\<open>String(n)\<close> for a non-negative integer: its decimal digits.\<close>

fun digits :: "nat \<Rightarrow> nat list" where
  "digits n = (if n < 10 then [n] else digits (n div 10) @ [n mod 10])"

declare digits.simps [simp del]

definition show_nat :: "nat \<Rightarrow> jsstring" where
  "show_nat n = map (\<lambda>d. 48 + d) (digits n)"

text \<open>
  \<open>String(n / 1000)\<close> for a non-negative integer \<open>n\<close>: the integer part and, when the
  division is not exact, a point and the thousandths without trailing zeros.
\<close>

definition show_thousandths :: "nat \<Rightarrow> jsstring" where
  "show_thousandths n =
     show_nat (n div 1000) @
     (if n mod 1000 = 0 then []
      else 46 # rev (dropWhile (\<lambda>d. d = 48)
                  (rev (map (\<lambda>d. 48 + d)
                     [n mod 1000 div 100, n mod 100 div 10, n mod 10]))))"

definition startsWith :: "jsstring \<Rightarrow> jsstring \<Rightarrow> bool" where
  "startsWith s p = (take (length p) s = p)"

fun js_includes :: "jsstring \<Rightarrow> jsstring \<Rightarrow> bool" where
  "js_includes [] p = (p = [])"
| "js_includes (c # cs) p = (startsWith (c # cs) p \<or> js_includes cs p)"

text \<open>
  The code units that \<open>trim\<close> strips and that \<open>\s\<close> matches: ECMAScript's WhiteSpace and
  LineTerminator.
\<close>

definition is_space :: "nat \<Rightarrow> bool" where
  "is_space c =
     (c = 9 \<or> c = 10 \<or> c = 11 \<or> c = 12 \<or> c = 13 \<or> c = 32 \<or> c = 160 \<or> c = 0x1680 \<or>
      (0x2000 \<le> c \<and> c \<le> 0x200A) \<or> c = 0x2028 \<or> c = 0x2029 \<or> c = 0x202F \<or>
      c = 0x205F \<or> c = 0x3000 \<or> c = 0xFEFF)"

definition trim :: "jsstring \<Rightarrow> jsstring" where
  "trim s = rev (dropWhile is_space (rev (dropWhile is_space s)))"

text \<open>\<open>s.split('\n')\<close>: always at least one piece.\<close>

fun split_nl :: "jsstring \<Rightarrow> jsstring list" where
  "split_nl [] = [[]]"
| "split_nl (c # cs) =
     (if c = 10 then [] # split_nl cs
      else (case split_nl cs of [] \<Rightarrow> [[c]] | l # ls \<Rightarrow> (c # l) # ls))"

fun join :: "jsstring \<Rightarrow> jsstring list \<Rightarrow> jsstring" where
  "join sep [] = []"
| "join sep [x] = x"
| "join sep (x # y # ys) = x @ sep @ join sep (y # ys)"

text \<open>
  \<open>toLowerCase\<close> on the ASCII letters.  Code units outside ASCII are left as they are: the
  program only searches the result for the word \<open>step\<close>, and no other character lower-cases
  to one of its letters.
\<close>

definition toLowerCase :: "jsstring \<Rightarrow> jsstring" where
  "toLowerCase s = map (\<lambda>c. if 65 \<le> c \<and> c \<le> 90 then c + 32 else c) s"

section \<open>Configuration, editor state and the observable effects\<close>

text \<open>The \<open>CONFIG\<close> object; \<open>ENABLE_LOCAL_FALLBACK\<close> is \<open>None\<close> when the key is absent.\<close>

record config =
  ENABLE_JWT :: bool
  MAX_TEXT_LENGTH :: nat
  RETRY_ATTEMPTS :: nat
  TIMEOUT_MS :: nat
  ENABLE_LOCAL_FALLBACK :: "bool option"

definition CONFIG :: config where
  "CONFIG = \<lparr>ENABLE_JWT = False, MAX_TEXT_LENGTH = 1000, RETRY_ATTEMPTS = 3,
             TIMEOUT_MS = 30000, ENABLE_LOCAL_FALLBACK = None\<rparr>"

text \<open>A thrown \<open>Error\<close> object: its \<open>name\<close> and its \<open>message\<close>.\<close>

datatype js_error = JsError (err_name: jsstring) (err_message: jsstring)

definition new_Error :: "jsstring \<Rightarrow> js_error" where
  "new_Error m = JsError (js ''Error'') m"

text \<open>
  \<open>error.stack\<close>: its first line, \<open>name: message\<close>; the frames that follow depend on the
  engine and are left out.
\<close>

definition stack_of :: "js_error \<Rightarrow> jsstring" where
  "stack_of e = err_name e @ js '': '' @ err_message e"

datatype ctx_value = Num nat | Str jsstring

text \<open>
  The record \<open>logError\<close> builds.  \<open>ctx\<close> is the source's \<open>context\<close>; \<open>timestamp\<close> holds the
  clock reading that \<open>toISOString\<close> renders.
\<close>

record errorInfo =
  message :: jsstring
  error :: "jsstring option"
  ctx :: "(jsstring \<times> ctx_value) list"
  timestamp :: nat
  stack :: "jsstring option"

record editorState =
  content :: jsstring
  currentFormat :: "jsstring option"
  sessionId :: "jsstring option"
  token :: "jsstring option"
  tokenExpiry :: "nat option"
  isProcessing :: bool
  lastError :: "errorInfo option"
  errors :: "errorInfo list"

datatype severity = Success | Error | Warning | Info

text \<open>
  The prompt of a request.  It is a text, unless the format is the name of a property that
  every object inherits (\<open>constructor\<close>, \<open>toString\<close>, \<dots>): the lookup in the prompt table
  then finds that property, which is not a string.
\<close>

datatype prompt_value = PromptText jsstring | Inherited jsstring

text \<open>The body of the request sent to the worker.\<close>

record payload =
  p_text :: jsstring
  p_prompt :: prompt_value
  p_format :: jsstring
  p_sessionId :: jsstring
  p_timestamp :: nat
  p_token :: "jsstring option"

text \<open>
  What the program does to the outside, in order: a notification shown, a request sent to the
  AI worker, a token refresh sent to the JWT worker, a suspension of the given number of
  milliseconds, the \<open>input\<close> event dispatched on the editor (which re-renders the preview), a
  record written to the console.
\<close>

datatype event =
    Notify jsstring severity
  | Request payload
  | TokenRefresh
  | Sleep nat
  | Input jsstring
  | Console errorInfo

record button =
  innerHTML :: jsstring
  disabled :: bool
  opacity :: jsstring

text \<open>
  Everything a call can read or change: \<open>editorState\<close>, the editor's \<open>value\<close> (\<open>None\<close> when
  the element is missing), the format button the call resolves (\<open>None\<close> when there is none),
  the clock in milliseconds, and the effects so far.
\<close>

record world =
  state :: editorState
  editor :: "jsstring option"
  btn :: "button option"
  now :: nat
  trace :: "event list"

definition emit :: "event \<Rightarrow> world \<Rightarrow> world" where
  "emit e w = w\<lparr>trace := trace w @ [e]\<rparr>"

definition showNotification :: "jsstring \<Rightarrow> severity \<Rightarrow> world \<Rightarrow> world" where
  "showNotification m t w = emit (Notify m t) w"

section \<open>\<open>logError\<close>\<close>

definition logError ::
  "jsstring \<Rightarrow> js_error option \<Rightarrow> (jsstring \<times> ctx_value) list \<Rightarrow> world \<Rightarrow> world" where
  "logError m err c w =
     (let info = \<lparr>message = m, error = map_option err_message err, ctx = c,
                  timestamp = now w, stack = map_option stack_of err\<rparr>;
          pushed = errors (state w) @ [info];
          w1 = emit (Console info)
                 (w\<lparr>state := (state w)\<lparr>errors := pushed, lastError := Some info\<rparr>\<rparr>)
      in if length pushed > 10
         then w1\<lparr>state := (state w1)\<lparr>errors := drop (length pushed - 10) pushed\<rparr>\<rparr>
         else w1)"

section \<open>Content enrichment\<close>

subsection \<open>\<open>enrichTwitterContent\<close>\<close>

text \<open>The loop over the non-blank lines, then the push of the last tweet.\<close>

fun tweet_loop :: "jsstring list \<Rightarrow> jsstring list \<Rightarrow> jsstring \<Rightarrow> jsstring list" where
  "tweet_loop [] tweets currentTweet =
     (if currentTweet \<noteq> [] then tweets @ [currentTweet] else tweets)"
| "tweet_loop (line # lines) tweets currentTweet =
     (if length (currentTweet @ [10] @ line) \<le> 280
      then tweet_loop lines tweets
             (currentTweet @ (if currentTweet \<noteq> [] then [10] else []) @ line)
      else tweet_loop lines
             (if currentTweet \<noteq> [] then tweets @ [currentTweet] else tweets)
             (if length line \<le> 280 then line else take 277 line @ js ''...''))"

definition tweets_of :: "jsstring \<Rightarrow> jsstring list" where
  "tweets_of txt =
     tweet_loop (filter (\<lambda>line. trim line \<noteq> []) (split_nl txt)) [] []"

text \<open>The chunks as they are emitted: each tweet behind its thread number.\<close>

definition numbered :: "jsstring list \<Rightarrow> jsstring list" where
  "numbered tweets =
     map (\<lambda>(index, tweet).
            if length tweets > 1
            then show_nat (index + 1) @ js ''/'' @ show_nat (length tweets) @ [10, 10] @ tweet
            else tweet)
         (enumerate 0 tweets)"

definition enrichTwitterContent :: "jsstring \<Rightarrow> jsstring" where
  "enrichTwitterContent txt =
     join ([10, 10] @ js ''---'' @ [10, 10]) (numbered (tweets_of txt))"

subsection \<open>The other platforms\<close>

text \<open>\<open>s.replace(/\n{3,}/g, '\n\n')\<close>: every run of three or more newlines becomes two.\<close>

function collapse_nl :: "jsstring \<Rightarrow> jsstring" where
  "collapse_nl [] = []"
| "collapse_nl (c # cs) =
     (if c = 10
      then (let n = length (takeWhile (\<lambda>x. x = 10) cs)
            in (if n \<ge> 2 then [10, 10] else replicate (Suc n) 10) @
               collapse_nl (dropWhile (\<lambda>x. x = 10) cs))
      else c # collapse_nl cs)"
  by pat_completeness auto
termination
  by (relation "measure length") (auto simp: le_imp_less_Suc length_dropWhile_le)

definition enrichLinkedInContent :: "jsstring \<Rightarrow> jsstring" where
  "enrichLinkedInContent txt =
     collapse_nl
       (if \<not> js_includes txt (js ''What do you think?'') \<and>
           \<not> js_includes txt (js ''Share your thoughts'')
        then txt @ [10, 10] @
             js ''What are your thoughts on this? Share your experience in the comments below!''
        else txt)"

text \<open>\<open>lines.splice(-1, 0, x)\<close> puts \<open>x\<close> in front of the last line.\<close>

definition enrichPeerlistContent :: "jsstring \<Rightarrow> jsstring" where
  "enrichPeerlistContent txt =
     (if \<not> js_includes txt (js ''Key takeaway'') \<and> \<not> js_includes txt (js ''Lesson learned'')
      then (let lines = split_nl txt
            in join [10]
                 (if length lines > 3
                  then butlast lines @
                       [10 # js ''**Key takeaway:** Focus on practical insights that advance your career.'',
                        last lines]
                  else lines))
      else txt)"

text \<open>
  \<open>s.replace(/```\s*\n/g, '```javascript\n')\<close>.  After the fence, \<open>\s*\<close> takes the whole
  run of white space and gives back as little as it must for \<open>\n\<close> to match: the match ends
  at the last newline of the run, and there is none when the run has no newline.
\<close>

function fence_javascript :: "jsstring \<Rightarrow> jsstring" where
  "fence_javascript [] = []"
| "fence_javascript (c # cs) =
     (let run = takeWhile is_space (drop 2 cs)
      in if startsWith (c # cs) (js ''```'') \<and> 10 \<in> set run
         then js ''```javascript'' @ [10] @
              fence_javascript
                (drop (2 + (length run - length (takeWhile (\<lambda>x. x \<noteq> 10) (rev run)))) cs)
         else c # fence_javascript cs)"
  by pat_completeness auto
termination
  by (relation "measure length") auto

definition enrichDailyDevContent :: "jsstring \<Rightarrow> jsstring" where
  "enrichDailyDevContent txt =
     (let enriched =
            (if js_includes txt (js ''function'') \<or> js_includes txt (js ''const'') \<or>
                js_includes txt (js ''code'')
             then fence_javascript txt else txt)
      in if \<not> js_includes enriched (js ''Happy coding'') \<and>
            \<not> js_includes enriched (js ''developer'')
         then enriched @ [10, 10] @ js ''Happy coding! '' @ [0xD83D, 0xDE80] @ [10, 10] @
              js ''What'' @ [39] @
              js ''s your experience with this? Let me know in the comments!''
         else enriched)"

text \<open>
  \<open>s.replace(/([.!?])\s*([A-Z])/g, '$1 $2')\<close>: a sentence end, any white space and a capital
  become the sentence end, one blank and the capital; the search goes on behind the capital.
\<close>

function space_sentences :: "jsstring \<Rightarrow> jsstring" where
  "space_sentences [] = []"
| "space_sentences (c # cs) =
     (if c = 46 \<or> c = 33 \<or> c = 63
      then (case dropWhile is_space cs of
              [] \<Rightarrow> c # space_sentences cs
            | u # rest \<Rightarrow>
                if 65 \<le> u \<and> u \<le> 90 then c # 32 # u # space_sentences rest
                else c # space_sentences cs)
      else c # space_sentences cs)"
  by pat_completeness auto
termination
proof (relation "measure length", goal_cases)
  case (3 c cs u rest)
  have "length (dropWhile is_space cs) \<le> length cs"
    by (rule length_dropWhile_le)
  with 3 show ?case by simp
qed simp_all

definition enrichGenericContent :: "jsstring \<Rightarrow> jsstring" where
  "enrichGenericContent txt = collapse_nl (space_sentences txt)"

subsection \<open>\<open>enrichContent\<close>\<close>

text \<open>
  The pictograph pattern has the \<open>u\<close> flag, so it runs over code points: a high surrogate
  followed by a low one is a single code point, any other code unit stands for itself.
\<close>

definition is_icon :: "nat \<Rightarrow> bool" where
  "is_icon cp =
     ((0x1F300 \<le> cp \<and> cp \<le> 0x1F9FF) \<or> (0x1F600 \<le> cp \<and> cp \<le> 0x1F64F) \<or>
      (0x1F680 \<le> cp \<and> cp \<le> 0x1F6FF) \<or> (0x2600 \<le> cp \<and> cp \<le> 0x26FF) \<or>
      (0x2700 \<le> cp \<and> cp \<le> 0x27BF))"

fun strip_icons :: "jsstring \<Rightarrow> jsstring" where
  "strip_icons [] = []"
| "strip_icons [c] = (if is_icon c then [] else [c])"
| "strip_icons (c # d # cs) =
     (if 0xD800 \<le> c \<and> c \<le> 0xDBFF \<and> 0xDC00 \<le> d \<and> d \<le> 0xDFFF
      then (if is_icon (0x10000 + (c - 0xD800) * 0x400 + (d - 0xDC00))
            then strip_icons cs else c # d # strip_icons cs)
      else if is_icon c then strip_icons (d # cs)
      else c # strip_icons (d # cs))"

text \<open>The replacement of the em dash (U+2014) and the en dash (U+2013) by a hyphen.\<close>

definition replace_dashes :: "jsstring \<Rightarrow> jsstring" where
  "replace_dashes s = map (\<lambda>c. if c = 0x2014 \<or> c = 0x2013 then 45 else c) s"

text \<open>
  The \<open>settings\<close> argument: the truth value of each key, or \<open>None\<close> for \<open>null\<close>, on which
  reading a key throws.
\<close>

record settings =
  enableIcons :: bool
  enablePrefilled :: bool

text \<open>The body of the \<open>try\<close> block of \<open>enrichContent\<close>: \<open>Inl\<close> is what it throws.\<close>

definition enrich_try :: "jsstring \<Rightarrow> jsstring \<Rightarrow> settings option \<Rightarrow> js_error + jsstring" where
  "enrich_try txt format st =
     (case st of
        None \<Rightarrow> Inl (JsError (js ''TypeError'') (js ''Cannot read properties of null''))
      | Some opts \<Rightarrow>
          (let enriched = (if \<not> enableIcons opts then replace_dashes (strip_icons txt) else txt)
           in Inr (if format = js ''twitter-post'' then enrichTwitterContent enriched
                   else if format = js ''linkedin-post'' then enrichLinkedInContent enriched
                   else if format = js ''peerlist-article'' then enrichPeerlistContent enriched
                   else if format = js ''dailydev-article'' then enrichDailyDevContent enriched
                   else enrichGenericContent enriched)))"

text \<open>
  \<open>enrichContent\<close> with its \<open>catch\<close>: like every operation that an exception could leave, it
  yields either what it throws (\<open>Inl\<close>) or what it returns, and the world after it.
\<close>

definition enrichContent ::
  "jsstring \<Rightarrow> jsstring \<Rightarrow> settings option \<Rightarrow> world \<Rightarrow> (js_error + jsstring) \<times> world" where
  "enrichContent txt format st w =
     (case enrich_try txt format st of
        Inr enriched \<Rightarrow> (Inr enriched, w)
      | Inl err \<Rightarrow> (Inr txt, logError (js ''Content enrichment failed'') (Some err) [] w))"

section \<open>The local fallback formatter\<close>

text \<open>\<open>editor.dispatchEvent(new Event('input'))\<close>: the listener stores the editor's text in
  \<open>editorState.content\<close> and renders it.\<close>

definition dispatch_input :: "world \<Rightarrow> world" where
  "dispatch_input w =
     (case editor w of
        None \<Rightarrow> w
      | Some v \<Rightarrow> emit (Input v) (w\<lparr>state := (state w)\<lparr>content := v\<rparr>\<rparr>))"

definition starts_with_keyword :: "jsstring \<Rightarrow> bool" where
  "starts_with_keyword line =
     (startsWith line (js ''function'') \<or> startsWith line (js ''const'') \<or>
      startsWith line (js ''let'') \<or> startsWith line (js ''var'') \<or>
      startsWith line (js ''class'') \<or> startsWith line (js ''import'') \<or>
      startsWith line (js ''export''))"

fun code_loop :: "jsstring list \<Rightarrow> jsstring list \<Rightarrow> bool \<Rightarrow> jsstring list" where
  "code_loop [] formatted inCodeBlock =
     (if inCodeBlock then formatted @ [js ''```''] else formatted)"
| "code_loop (line # lines) formatted inCodeBlock =
     (if starts_with_keyword line
      then code_loop lines
             ((if \<not> inCodeBlock then formatted @ [js ''```javascript''] else formatted) @ [line])
             True
      else if inCodeBlock \<and> trim line = [] then code_loop lines (formatted @ [line]) inCodeBlock
      else if inCodeBlock then code_loop lines (formatted @ [js ''```'', [], line]) False
      else code_loop lines (formatted @ [line]) inCodeBlock)"

definition formatAsCode :: "jsstring \<Rightarrow> jsstring" where
  "formatAsCode txt = join [10] (code_loop (split_nl txt) [] False)"

text \<open>
  \<open>line.replace(/step\s*\d*:?\s*/i, '')\<close>: the first \<open>step\<close> in either case, with the white
  space, digits, colon and white space behind it, is removed.
\<close>

definition after_step :: "jsstring \<Rightarrow> jsstring" where
  "after_step s =
     dropWhile is_space
       (case dropWhile (\<lambda>c. 48 \<le> c \<and> c \<le> 57) (dropWhile is_space s) of
          [] \<Rightarrow> []
        | c # cs \<Rightarrow> if c = 58 then cs else c # cs)"

fun remove_step :: "jsstring \<Rightarrow> jsstring" where
  "remove_step [] = []"
| "remove_step (c # cs) =
     (if toLowerCase (take 4 (c # cs)) = js ''step'' then after_step (drop 3 cs)
      else c # remove_step cs)"

fun tutorial_loop :: "jsstring list \<Rightarrow> jsstring list \<Rightarrow> nat \<Rightarrow> jsstring list" where
  "tutorial_loop [] formatted stepCounter = formatted"
| "tutorial_loop (line # lines) formatted stepCounter =
     (if js_includes (toLowerCase line) (js ''step'') \<and> \<not> startsWith line (js ''#'')
      then tutorial_loop lines
             (formatted @
              [js ''## Step '' @ show_nat stepCounter @ js '': '' @ remove_step line])
             (stepCounter + 1)
      else tutorial_loop lines (formatted @ [line]) stepCounter)"

definition formatAsTutorial :: "jsstring \<Rightarrow> jsstring" where
  "formatAsTutorial txt = join [10] (tutorial_loop (split_nl txt) [] 1)"

definition formatAsArticle :: "jsstring \<Rightarrow> jsstring" where
  "formatAsArticle txt =
     join [10]
       (map (\<lambda>line.
               if length line > 0 \<and> \<not> startsWith line (js ''#'') \<and>
                  \<not> startsWith line (js ''-'') \<and> \<not> startsWith line (js ''*'')
               then (if length line < 60 \<and> \<not> js_includes line (js ''.'') \<and>
                        \<not> js_includes line (js '','')
                     then js ''## '' @ line else line)
               else line)
            (split_nl txt))"

text \<open>
  \<open>autoFormatLocal\<close> takes no argument: it reads the editor, writes the formatted text back,
  dispatches \<open>input\<close> and notifies.  It has no \<open>return\<close> statement, so what the caller gets is
  \<open>undefined\<close>, here \<open>None\<close>; reading \<open>value\<close> of a missing editor throws.
\<close>

definition autoFormatLocal :: "world \<Rightarrow> (js_error + jsstring option) \<times> world" where
  "autoFormatLocal w =
     (case editor w of
        None \<Rightarrow> (Inl (JsError (js ''TypeError'') (js ''Cannot read properties of null'')), w)
      | Some txt \<Rightarrow>
          (let formatted =
                 (if js_includes txt (js ''function'') \<or> js_includes txt (js ''const'') \<or>
                     js_includes txt (js ''class'')
                  then formatAsCode txt
                  else if js_includes txt (js ''step'') \<or> js_includes txt (js ''tutorial'')
                  then formatAsTutorial txt
                  else formatAsArticle txt)
           in (Inr None,
               showNotification ([0xD83D, 0xDCDD] @ js '' Local formatting applied'') Info
                 (dispatch_input (w\<lparr>editor := Some formatted\<rparr>)))))"

section \<open>The processing pipeline\<close>

subsection \<open>What the outside supplies\<close>

text \<open>
  The body of a response as \<open>response.json()\<close> yields it: the truth value of \<open>success\<close>, and
  \<open>processedText\<close> and \<open>error\<close> when present.  \<open>BodyThrows\<close> is a body whose reading throws
  (not JSON, or \<open>null\<close>).
\<close>

record response_body =
  success :: bool
  processedText :: "jsstring option"
  error_field :: "jsstring option"

datatype body_read = BodyThrows js_error | Body response_body

record response =
  ok :: bool
  status :: nat
  statusText :: jsstring
  body :: body_read

text \<open>
  How one \<open>fetch\<close> ends.  It rejects on a network failure, and with an error named
  \<open>AbortError\<close> when the timer of \<open>TIMEOUT_MS\<close> aborts it; otherwise it yields a response.
\<close>

datatype fetch_outcome = FetchRejects js_error | FetchResponds response

definition AbortError :: js_error where
  "AbortError = JsError (js ''AbortError'') (js ''The user aborted a request.'')"

datatype refresh_outcome = RefreshOk jsstring nat | RefreshNotOk | RefreshThrows

text \<open>
  How \<open>document.querySelector\<close> ends for a selector: it throws when the selector is not
  valid, and otherwise finds the format button or nothing.
\<close>

datatype lookup = Throws js_error | Found | NotFound

fun throws :: "lookup \<Rightarrow> bool" where
  "throws (Throws err) = True"
| "throws Found = False"
| "throws NotFound = False"

text \<open>
  The environment of one call: the outcome and the duration of the fetch of each attempt,
  the outcome of a token refresh, the two check boxes of the settings panel
  (\<open>None\<close> when the element is missing), and the outcome of \<open>document.querySelector\<close> for
  each selector.
\<close>

record env =
  responses :: "nat \<Rightarrow> fetch_outcome"
  latency :: "nat \<Rightarrow> nat"
  refresh :: refresh_outcome
  enableIcons_checked :: "bool option"
  enablePrefilled_checked :: "bool option"
  querySelector :: "jsstring \<Rightarrow> lookup"

text \<open>
  \<open>processWithAI\<close> is asynchronous: while it waits for a fetch, for the body of a response
  or for a timer, other handlers of the page can run.  What they do to the world at such a
  suspension is the parameter \<open>meanwhile\<close> of the operations below; \<open>undisturbed\<close> is a run
  during which nothing else happens.
\<close>

definition undisturbed :: "world \<Rightarrow> world" where
  "undisturbed w = w"

subsection \<open>\<open>ensureValidToken\<close>\<close>

definition ensureValidToken ::
  "(world \<Rightarrow> world) \<Rightarrow> config \<Rightarrow> env \<Rightarrow> world \<Rightarrow> bool \<times> world" where
  "ensureValidToken meanwhile cfg ev w =
     (if \<not> ENABLE_JWT cfg \<or> token (state w) = None \<or> token (state w) = Some [] then (True, w)
      else (case tokenExpiry (state w) of
              None \<Rightarrow> (True, w)
            | Some expiry \<Rightarrow>
                if expiry \<noteq> 0 \<and> int expiry - int (now w) < 300000
                then (let w1 = meanwhile (emit TokenRefresh w)
                      in case refresh ev of
                           RefreshOk t expiresIn \<Rightarrow>
                             (let w2 = meanwhile w1
                              in (True, w2\<lparr>state := (state w2)\<lparr>token := Some t,
                                         tokenExpiry := Some (now w2 + expiresIn * 1000)\<rparr>\<rparr>))
                         | RefreshNotOk \<Rightarrow> (False, w1)
                         | RefreshThrows \<Rightarrow> (False, w1))
                else (True, w)))"

subsection \<open>The request\<close>

definition prompts :: "(jsstring \<times> jsstring) list" where
  "prompts =
     [(js ''dev-article'', js ''Transform this into a well-structured development article with clear sections, proper headings, and code examples where appropriate.''),
      (js ''tutorial'', js ''Format this as a step-by-step tutorial with numbered sections and clear instructions.''),
      (js ''chatgpt-prompt'', js ''Reformat this as a clear, structured prompt for ChatGPT with specific requirements and context.''),
      (js ''readme'', js ''Format this as a professional README document with sections for installation, usage, and examples.''),
      (js ''Med-Article'', js ''Transform this into a well-structured Medium-style article with engaging headings, proper formatting, and clear sections.''),
      (js ''peerlist-article'', js ''Transform this into a professional Peerlist article that showcases expertise and builds credibility. Focus on insights, career lessons, and actionable advice. Use engaging headlines and professional tone suitable for networking.''),
      (js ''twitter-post'', js ''Transform this into an engaging Twitter/X thread. Break into concise, punchy tweets (max 280 chars each). Use hooks, numbered points, and encourage engagement. Include relevant hashtags and maintain conversational tone.''),
      (js ''linkedin-post'', js ''Transform this into a professional LinkedIn post that drives engagement. Use storytelling elements, professional insights, and calls-to-action. Include relevant hashtags and maintain thought leadership tone.''),
      (js ''dailydev-article'', js ''Transform this into a Daily.dev community article. Focus on practical development insights, code examples, and developer-focused content. Use clear sections, code blocks, and actionable takeaways for the developer community.'')]"

text \<open>\<open>a || b\<close> on strings that may be missing: the first one that is present and not empty.\<close>

definition or_else :: "jsstring option \<Rightarrow> jsstring \<Rightarrow> jsstring" where
  "or_else a b = (case a of None \<Rightarrow> b | Some v \<Rightarrow> if v = [] then b else v)"

text \<open>The names that \<open>prompts[format]\<close> finds although the table does not list them.\<close>

definition inherited_properties :: "jsstring list" where
  "inherited_properties =
     [js ''constructor'', js ''__defineGetter__'', js ''__defineSetter__'',
      js ''hasOwnProperty'', js ''__lookupGetter__'', js ''__lookupSetter__'',
      js ''isPrototypeOf'', js ''propertyIsEnumerable'', js ''toString'', js ''valueOf'',
      js ''__proto__'', js ''toLocaleString'']"

definition table_prompt :: "jsstring \<Rightarrow> prompt_value" where
  "table_prompt format =
     (case map_of prompts format of
        Some p \<Rightarrow> PromptText p
      | None \<Rightarrow>
          if List.member inherited_properties format then Inherited format
          else PromptText (js ''Improve the formatting and structure of this text.''))"

text \<open>\<open>customPrompt || prompts[format] || '\<dots>'\<close>; every prompt of the table is non-empty.\<close>

definition select_prompt :: "jsstring option \<Rightarrow> jsstring \<Rightarrow> prompt_value" where
  "select_prompt customPrompt format =
     (case customPrompt of
        None \<Rightarrow> table_prompt format
      | Some custom \<Rightarrow> if custom = [] then table_prompt format else PromptText custom)"

definition build_payload ::
  "config \<Rightarrow> jsstring \<Rightarrow> jsstring \<Rightarrow> jsstring option \<Rightarrow> world \<Rightarrow> payload" where
  "build_payload cfg txt format customPrompt w =
     \<lparr>p_text = txt, p_prompt = select_prompt customPrompt format, p_format = format,
      p_sessionId = or_else (sessionId (state w)) (js ''anonymous''),
      p_timestamp = now w,
      p_token = (if ENABLE_JWT cfg \<and> token (state w) \<noteq> None \<and> token (state w) \<noteq> Some []
                 then token (state w) else None)\<rparr>"

subsection \<open>One attempt\<close>

text \<open>
  From the settled \<open>fetch\<close> to the test of the result: \<open>Inr\<close> is the processed text of a
  well-formed answer, \<open>Inl\<close> is what the \<open>try\<close> block throws.
\<close>

definition read_response :: "fetch_outcome \<Rightarrow> js_error + jsstring" where
  "read_response outcome =
     (case outcome of
        FetchRejects err \<Rightarrow> Inl err
      | FetchResponds r \<Rightarrow>
          if \<not> ok r
          then (let errorMessage = js ''HTTP '' @ show_nat (status r) @ js '': '' @ statusText r
                in Inl (new_Error
                     (case body r of
                        BodyThrows e \<Rightarrow> errorMessage
                      | Body errorData \<Rightarrow> or_else (error_field errorData) errorMessage)))
          else (case body r of
                  BodyThrows e \<Rightarrow> Inl e
                | Body result \<Rightarrow>
                    (case processedText result of
                       Some text \<Rightarrow>
                         if success result \<and> text \<noteq> [] then Inr text
                         else Inl (new_Error
                                (or_else (error_field result)
                                   (js ''Processing failed - no processed text returned'')))
                     | None \<Rightarrow>
                         Inl (new_Error
                           (or_else (error_field result)
                              (js ''Processing failed - no processed text returned''))))))"

text \<open>
  \<open>await fetch(\<dots>)\<close> and, when a response has come, \<open>await response.json()\<close>: the request is
  sent, and the call is suspended while it is under way and then while the body is read.
\<close>

definition await_response ::
  "(world \<Rightarrow> world) \<Rightarrow> env \<Rightarrow> payload \<Rightarrow> nat \<Rightarrow> world \<Rightarrow> world" where
  "await_response meanwhile ev pl attempt w =
     (let fetched = meanwhile (emit (Request pl) w);
          settled = fetched\<lparr>now := now fetched + latency ev attempt\<rparr>
      in case responses ev attempt of
           FetchRejects err \<Rightarrow> settled
         | FetchResponds r \<Rightarrow> meanwhile settled)"

text \<open>\<open>await new Promise(resolve => setTimeout(resolve, waitTime))\<close>.\<close>

definition sleep :: "(world \<Rightarrow> world) \<Rightarrow> nat \<Rightarrow> world \<Rightarrow> world" where
  "sleep meanwhile waitTime w =
     (let slept = meanwhile (emit (Sleep waitTime) w)
      in slept\<lparr>now := now slept + waitTime\<rparr>)"

text \<open>
  The \<open>try\<close> block of the loop body for one attempt.  \<open>Inr ()\<close> is the \<open>return\<close> on success,
  \<open>Inl\<close> what the block throws into the \<open>catch\<close> of the loop.
\<close>

definition attempt_try ::
  "(world \<Rightarrow> world) \<Rightarrow> config \<Rightarrow> env \<Rightarrow> payload \<Rightarrow> jsstring \<Rightarrow> nat \<Rightarrow> nat \<Rightarrow> nat \<Rightarrow> world
     \<Rightarrow> (js_error + unit) \<times> world"
  where
  "attempt_try meanwhile cfg ev pl format textLength startTime attempt w =
     (let w1 = showNotification
                 ([0xD83D, 0xDD04] @ js '' Processing attempt '' @ show_nat attempt @ js ''/'' @
                  show_nat (RETRY_ATTEMPTS cfg) @ js ''...'') Info w;
          w2 = await_response meanwhile ev pl attempt w1
      in case read_response (responses ev attempt) of
           Inl err \<Rightarrow> (Inl err, w2)
         | Inr text \<Rightarrow>
             (let processingTime = now w2 - startTime;
                  opts = \<lparr>enableIcons = (case enableIcons_checked ev of None \<Rightarrow> True | Some b \<Rightarrow> b),
                          enablePrefilled =
                            (case enablePrefilled_checked ev of None \<Rightarrow> True | Some b \<Rightarrow> b)\<rparr>
              in case enrichContent text format (Some opts) w2 of
                   (Inl err, w3) \<Rightarrow> (Inl err, w3)
                 | (Inr enrichedText, w3) \<Rightarrow>
                     (Inr (),
                      logError (js ''AI processing completed'') None
                        [(js ''format'', Str format), (js ''processingTime'', Num processingTime),
                         (js ''textLength'', Num textLength), (js ''attempt'', Num attempt)]
                        (showNotification
                           ([0x2728, 32] @ format @ js '' formatting completed! ('' @
                            show_nat processingTime @ js ''ms)'') Success
                           (dispatch_input (w3\<lparr>editor := Some enrichedText\<rparr>))))))"

subsection \<open>The retry loop\<close>

text \<open>
  How the \<open>for\<close> loop is left: by the \<open>return\<close> of a successful attempt, by a \<open>throw\<close> out of
  its \<open>catch\<close>, or by running past its bound with the last error, if any.
\<close>

datatype loop_exit = Returned | Thrown js_error | FellThrough "js_error option"

function retry_loop ::
  "(world \<Rightarrow> world) \<Rightarrow> config \<Rightarrow> env \<Rightarrow> payload \<Rightarrow> jsstring \<Rightarrow> nat \<Rightarrow> nat \<Rightarrow> nat \<Rightarrow>
     js_error option \<Rightarrow> world \<Rightarrow> loop_exit \<times> world"
  where
  "retry_loop meanwhile cfg ev pl format textLength startTime attempt lastErr w =
     (if attempt \<le> RETRY_ATTEMPTS cfg
      then (case attempt_try meanwhile cfg ev pl format textLength startTime attempt w of
              (Inr u, w1) \<Rightarrow> (Returned, w1)
            | (Inl err, w1) \<Rightarrow>
                if err_name err = js ''AbortError''
                then (Thrown (new_Error (js ''Processing timeout after '' @
                                show_thousandths (TIMEOUT_MS cfg) @ js '' seconds'')), w1)
                else if attempt = RETRY_ATTEMPTS cfg then (Thrown err, w1)
                else (let waitTime = 2 ^ attempt * 1000;
                          w2 = showNotification
                                 ([0x23F3] @ js '' Retrying in '' @ show_thousandths waitTime @
                                  js '' seconds...'') Info w1;
                          w3 = sleep meanwhile waitTime w2
                      in retry_loop meanwhile cfg ev pl format textLength startTime (attempt + 1)
                           (Some err) w3))
      else (FellThrough lastErr, w))"
  by pat_completeness auto
termination
  by (relation "measure (\<lambda>(meanwhile, cfg, ev, pl, format, textLength, startTime, attempt,
        lastErr, w). Suc (RETRY_ATTEMPTS cfg) - attempt)") auto

subsection \<open>\<open>processWithAI\<close>\<close>

text \<open>The message of the error notification, chosen by what the error's message contains.\<close>

definition user_message :: "js_error \<Rightarrow> jsstring" where
  "user_message err =
     [0x274C] @ js '' Processing failed: '' @
     (let m = err_message err
      in if js_includes m (js ''fetch'')
         then js ''Network connection issue. Please check your internet connection.''
         else if js_includes m (js ''timeout'')
         then js ''Request timed out. The service may be busy, please try again.''
         else if js_includes m (js ''401'') \<or> js_includes m (js ''403'')
         then js ''Authentication error. Please refresh the page.''
         else if js_includes m (js ''429'')
         then js ''Rate limit exceeded. Please wait a moment before trying again.''
         else if js_includes m (js ''500'') \<or> js_includes m (js ''502'') \<or>
                 js_includes m (js ''503'')
         then js ''Server error. Please try again later.''
         else if m = [] then js ''Unknown error occurred'' else m)"

text \<open>The outer \<open>catch\<close> block: log, notify, then the local fallback.\<close>

definition on_failure ::
  "config \<Rightarrow> jsstring \<Rightarrow> jsstring \<Rightarrow> nat \<Rightarrow> js_error \<Rightarrow> world \<Rightarrow> world" where
  "on_failure cfg format txt startTime err w =
     (let processingTime = now w - startTime;
          w1 = logError (js ''AI Processing failed'') (Some err)
                 [(js ''format'', Str format), (js ''processingTime'', Num processingTime),
                  (js ''textLength'', Num (length txt)),
                  (js ''retryAttempts'', Num (RETRY_ATTEMPTS cfg))] w;
          w2 = showNotification (user_message err) Error w1
      in if ENABLE_LOCAL_FALLBACK cfg \<noteq> Some False
         then (let w3 = showNotification
                          ([0xD83D, 0xDD04] @ js '' Trying local fallback formatting...'') Info w2
               in case autoFormatLocal w3 of
                    (Inl fallbackError, w4) \<Rightarrow>
                      logError (js ''Local fallback failed'') (Some fallbackError) [] w4
                  | (Inr None, w4) \<Rightarrow> w4
                  | (Inr (Some localResult), w4) \<Rightarrow>
                      if localResult \<noteq> [] \<and> localResult \<noteq> txt
                      then showNotification
                             ([0x2705] @ js '' Local fallback formatting applied'') Success
                             (dispatch_input (w4\<lparr>editor := Some localResult\<rparr>))
                      else w4)
         else w2)"

text \<open>The outer \<open>try\<close> block.\<close>

definition pipeline_try ::
  "(world \<Rightarrow> world) \<Rightarrow> config \<Rightarrow> env \<Rightarrow> jsstring \<Rightarrow> jsstring option \<Rightarrow> jsstring \<Rightarrow> nat \<Rightarrow>
     world \<Rightarrow> (js_error + unit) \<times> world"
  where
  "pipeline_try meanwhile cfg ev format customPrompt txt startTime w =
     (case ensureValidToken meanwhile cfg ev w of
        (tokenValid, w1) \<Rightarrow>
          if \<not> tokenValid \<and> ENABLE_JWT cfg
          then (Inl (new_Error
                  (js ''Authentication failed. Please refresh the page and try again.'')), w1)
          else (case retry_loop meanwhile cfg ev (build_payload cfg txt format customPrompt w1)
                       format (length txt) startTime 1 None w1 of
                  (Returned, w2) \<Rightarrow> (Inr (), w2)
                | (Thrown err, w2) \<Rightarrow> (Inl err, w2)
                | (FellThrough lastErr, w2) \<Rightarrow>
                    (Inl (case lastErr of
                            Some err \<Rightarrow> err
                          | None \<Rightarrow> new_Error (js ''All retry attempts failed'')), w2)))"

text \<open>\<open>editor?.value?.trim() || ''\<close>, the text a call works on.\<close>

definition trimmed_input :: "world \<Rightarrow> jsstring" where
  "trimmed_input w = (case editor w of None \<Rightarrow> [] | Some v \<Rightarrow> trim v)"

text \<open>
  The first argument of \<open>processWithAI\<close>: a string under the old calling convention (it is then
  the format), a button element, or \<open>null\<close>.
\<close>

datatype element_arg = StringArg jsstring | ElementArg | NullArg

definition resolved_format :: "element_arg \<Rightarrow> jsstring \<Rightarrow> jsstring" where
  "resolved_format element format0 =
     (case element of StringArg s \<Rightarrow> s | ElementArg \<Rightarrow> format0 | NullArg \<Rightarrow> format0)"

text \<open>
  \<open>element || document.querySelector(`[data-format="${format}"]`)\<close>: the element passed in,
  or else the lookup by format, which can throw.
\<close>

definition find_button :: "env \<Rightarrow> element_arg \<Rightarrow> jsstring \<Rightarrow> lookup" where
  "find_button ev element format =
     (case element of
        ElementArg \<Rightarrow> Found
      | StringArg s \<Rightarrow> querySelector ev (js ''[data-format='' @ [34] @ format @ [34] @ js '']'')
      | NullArg \<Rightarrow> querySelector ev (js ''[data-format='' @ [34] @ format @ [34] @ js '']''))"

text \<open>\<open>if (button) { \<dots> }\<close>: the change is made when the call has got hold of a button.\<close>

definition update_button :: "bool \<Rightarrow> (button \<Rightarrow> button) \<Rightarrow> world \<Rightarrow> world" where
  "update_button present f w = (if present then w\<lparr>btn := map_option f (btn w)\<rparr> else w)"

text \<open>
  The rest of the call once the flag is set and the button is looked up: the button shows the
  processing state, then \<open>try\<close>, \<open>catch\<close> and \<open>finally\<close>.
\<close>

definition locked_run ::
  "(world \<Rightarrow> world) \<Rightarrow> config \<Rightarrow> env \<Rightarrow> jsstring \<Rightarrow> jsstring option \<Rightarrow> jsstring \<Rightarrow> nat \<Rightarrow>
     bool \<Rightarrow> world \<Rightarrow> world"
  where
  "locked_run meanwhile cfg ev format customPrompt txt startTime present w1 =
     (let originalButtonContent =
            (if present then (case btn w1 of None \<Rightarrow> [] | Some b \<Rightarrow> innerHTML b) else []);
          w2 = update_button present
                 (\<lambda>b. b\<lparr>innerHTML := [0xD83D, 0xDD04] @ js '' Processing...'',
                        disabled := True, opacity := js ''0.6''\<rparr>) w1;
          w3 = (case pipeline_try meanwhile cfg ev format customPrompt txt startTime w2 of
                  (Inr u, wr) \<Rightarrow> wr
                | (Inl err, wr) \<Rightarrow> on_failure cfg format txt startTime err wr)
      in update_button present
           (\<lambda>b. b\<lparr>innerHTML := originalButtonContent, disabled := False, opacity := js ''1''\<rparr>)
           (w3\<lparr>state := (state w3)\<lparr>isProcessing := False\<rparr>\<rparr>))"

text \<open>
  How the call ends for its caller: the promise it returns is resolved, or rejected with an
  error that nothing inside has caught.
\<close>

datatype completion = Resolved | Rejected js_error

text \<open>
  The lookup of the button stands between the assignment of \<open>isProcessing\<close> and the \<open>try\<close>:
  when it throws, the call ends there, with the flag set.
\<close>

definition processWithAI ::
  "(world \<Rightarrow> world) \<Rightarrow> config \<Rightarrow> env \<Rightarrow> element_arg \<Rightarrow> jsstring \<Rightarrow> jsstring option \<Rightarrow> world
     \<Rightarrow> completion \<times> world"
  where
  "processWithAI meanwhile cfg ev element format0 customPrompt w =
     (let format = resolved_format element format0;
          txt = trimmed_input w
      in if txt = []
         then (Resolved,
               showNotification
                 ([0xD83D, 0xDCDD] @ js '' Please enter some text to process first'') Warning w)
         else if length txt > MAX_TEXT_LENGTH cfg
         then (Resolved,
               showNotification
                 ([0x26A0, 0xFE0F] @ js '' Text is too long. Please limit to '' @
                  show_nat (MAX_TEXT_LENGTH cfg) @ js '' characters. Current: '' @
                  show_nat (length txt)) Warning w)
         else if isProcessing (state w)
         then (Resolved,
               showNotification
                 ([0x23F3] @ js '' Please wait for current processing to complete'') Info w)
         else (let w1 = w\<lparr>state := (state w)\<lparr>isProcessing := True\<rparr>\<rparr>;
                   startTime = now w1
               in case find_button ev element format of
                    Throws err \<Rightarrow> (Rejected err, w1)
                  | Found \<Rightarrow>
                      (Resolved,
                       locked_run meanwhile cfg ev format customPrompt txt startTime True w1)
                  | NotFound \<Rightarrow>
                      (Resolved,
                       locked_run meanwhile cfg ev format customPrompt txt startTime False w1)))"

section \<open>Reading a run\<close>

text \<open>The requests to the AI worker and the suspensions, which together are the retry
  schedule of a run; the requests alone; what the user sees, notifications and renderings of
  the editor; the notifications that are not merely informative (success, warning,
  error), which tell the user how a call ended; and among them the error notifications.\<close>

fun is_network :: "event \<Rightarrow> bool" where
  "is_network (Request pl) = True"
| "is_network (Sleep ms) = True"
| "is_network e = False"

fun is_request :: "event \<Rightarrow> bool" where
  "is_request (Request pl) = True"
| "is_request e = False"

fun user_visible :: "event \<Rightarrow> bool" where
  "user_visible (Notify m t) = True"
| "user_visible (Input v) = True"
| "user_visible e = False"

fun is_terminal :: "event \<Rightarrow> bool" where
  "is_terminal (Notify m t) = (t \<noteq> Info)"
| "is_terminal e = False"

fun is_error :: "event \<Rightarrow> bool" where
  "is_error (Notify m t) = (t = Error)"
| "is_error e = False"

text \<open>
  The schedule of a run whose attempts \<open>a\<close>, \<dots>, \<open>k - 1\<close> are each followed by a backoff and
  whose attempt \<open>k\<close> is the last: the request of attempt \<open>n\<close>, then \<open>2 ^ n * 1000\<close> ms.
\<close>

definition schedule :: "payload \<Rightarrow> nat \<Rightarrow> nat \<Rightarrow> event list" where
  "schedule pl a k = concat (map (\<lambda>n. [Request pl, Sleep (2 ^ n * 1000)]) [a..<k]) @ [Request pl]"

text \<open>
  How the \<open>catch\<close> of the loop sorts the end of an attempt: it retries after every error
  except one named \<open>AbortError\<close>, which is the expiry of the timer.
\<close>

definition succeeds :: "fetch_outcome \<Rightarrow> bool" where
  "succeeds outcome = (case read_response outcome of Inr text \<Rightarrow> True | Inl err \<Rightarrow> False)"

definition fails_retryably :: "fetch_outcome \<Rightarrow> bool" where
  "fails_retryably outcome =
     (case read_response outcome of
        Inr text \<Rightarrow> False
      | Inl err \<Rightarrow> err_name err \<noteq> js ''AbortError'')"

definition times_out :: "fetch_outcome \<Rightarrow> bool" where
  "times_out outcome =
     (case read_response outcome of
        Inr text \<Rightarrow> False
      | Inl err \<Rightarrow> err_name err = js ''AbortError'')"

text \<open>A response with a 2xx status whose body lacks the expected fields.\<close>

definition malformed_success :: "fetch_outcome \<Rightarrow> bool" where
  "malformed_success outcome =
     (case outcome of
        FetchRejects err \<Rightarrow> False
      | FetchResponds r \<Rightarrow>
          ok r \<and>
          (case body r of
             BodyThrows e \<Rightarrow> False
           | Body result \<Rightarrow>
               \<not> success result \<or> processedText result = None \<or>
               processedText result = Some []))"

text \<open>
  A call is accepted when its text passes validation and no other call holds the flag.  An
  undisturbed call gets as far as the retry loop when it is accepted, the lookup of the button
  does not throw, and the token check lets it through.
\<close>

definition accepted :: "config \<Rightarrow> world \<Rightarrow> bool" where
  "accepted cfg w =
     (trimmed_input w \<noteq> [] \<and> length (trimmed_input w) \<le> MAX_TEXT_LENGTH cfg \<and>
      \<not> isProcessing (state w))"

definition reaches_loop :: "config \<Rightarrow> env \<Rightarrow> element_arg \<Rightarrow> jsstring \<Rightarrow> world \<Rightarrow> bool" where
  "reaches_loop cfg ev element format0 w =
     (accepted cfg w \<and>
      \<not> throws (find_button ev element (resolved_format element format0)) \<and>
      (fst (ensureValidToken undisturbed cfg ev w) \<or> \<not> ENABLE_JWT cfg))"

text \<open>
  What happens at a suspension when the user triggers the processing again: another call
  of \<open>processWithAI\<close>, with arguments and an environment of its own.
\<close>

definition second_call ::
  "config \<Rightarrow> env \<Rightarrow> element_arg \<Rightarrow> jsstring \<Rightarrow> jsstring option \<Rightarrow> world \<Rightarrow> world" where
  "second_call cfg ev element format0 customPrompt w =
     snd (processWithAI undisturbed cfg ev element format0 customPrompt w)"

subsection \<open>Scenarios\<close>

text \<open>Concrete states, answers and environments on which the properties are exercised.\<close>

definition idle_state :: editorState where
  "idle_state = \<lparr>content = [], currentFormat = None, sessionId = None, token = None,
                 tokenExpiry = None, isProcessing = False, lastError = None, errors = []\<rparr>"

definition idle_world :: "jsstring \<Rightarrow> world" where
  "idle_world txt = \<lparr>state = idle_state, editor = Some txt, btn = None, now = 0, trace = []\<rparr>"

definition busy_world :: "jsstring \<Rightarrow> world" where
  "busy_world txt =
     \<lparr>state = idle_state\<lparr>isProcessing := True\<rparr>, editor = Some txt, btn = None, now = 0,
      trace = []\<rparr>"

definition http_500 :: fetch_outcome where
  "http_500 =
     FetchResponds \<lparr>ok = False, status = 500, statusText = js ''Internal Server Error'',
                    body = Body \<lparr>success = False, processedText = None, error_field = None\<rparr>\<rparr>"

definition well_formed :: "jsstring \<Rightarrow> fetch_outcome" where
  "well_formed text =
     FetchResponds \<lparr>ok = True, status = 200, statusText = js ''OK'',
                    body = Body \<lparr>success = True, processedText = Some text, error_field = None\<rparr>\<rparr>"

definition missing_text :: fetch_outcome where
  "missing_text =
     FetchResponds \<lparr>ok = True, status = 200, statusText = js ''OK'',
                    body = Body \<lparr>success = True, processedText = None, error_field = None\<rparr>\<rparr>"

definition timed_out :: fetch_outcome where
  "timed_out = FetchRejects AbortError"

text \<open>The worker answers the attempts with the listed outcomes in turn, then with \<open>final\<close>.\<close>

definition scripted :: "fetch_outcome list \<Rightarrow> fetch_outcome \<Rightarrow> nat \<Rightarrow> fetch_outcome" where
  "scripted outcomes final attempt =
     (if 1 \<le> attempt \<and> attempt \<le> length outcomes then outcomes ! (attempt - 1) else final)"

definition instant :: "nat \<Rightarrow> nat" where
  "instant attempt = 0"

definition no_button :: "jsstring \<Rightarrow> lookup" where
  "no_button selector = NotFound"

text \<open>
  A document without format buttons whose \<open>querySelector\<close> refuses a selector that does not
  parse, as it does when a double quote of the format cuts the attribute value short.
\<close>

definition strict_selector :: "jsstring \<Rightarrow> lookup" where
  "strict_selector selector =
     (if length (filter (\<lambda>c. c = 34) selector) = 2 then NotFound
      else Throws (JsError (js ''SyntaxError'') (selector @ js '' is not a valid selector'')))"

definition scenario :: "fetch_outcome list \<Rightarrow> fetch_outcome \<Rightarrow> env" where
  "scenario outcomes final =
     \<lparr>responses = scripted outcomes final, latency = instant, refresh = RefreshThrows,
      enableIcons_checked = None, enablePrefilled_checked = None, querySelector = no_button\<rparr>"

section \<open>Properties\<close>

subsection \<open>What each operation adds to the trace\<close>

lemma net_logError [simp]:
  "filter is_network (trace (logError m err c w)) = filter is_network (trace w)"
  by (simp add: logError_def Let_def emit_def)

lemma term_logError [simp]:
  "filter is_terminal (trace (logError m err c w)) = filter is_terminal (trace w)"
  by (simp add: logError_def Let_def emit_def)

lemma net_showNotification [simp]:
  "filter is_network (trace (showNotification m t w)) = filter is_network (trace w)"
  by (simp add: showNotification_def emit_def)

lemma term_showNotification [simp]:
  "filter is_terminal (trace (showNotification m t w)) =
   filter is_terminal (trace w) @ (if t = Info then [] else [Notify m t])"
  by (simp add: showNotification_def emit_def)

lemma net_dispatch_input [simp]:
  "filter is_network (trace (dispatch_input w)) = filter is_network (trace w)"
  by (simp add: dispatch_input_def emit_def split: option.splits)

lemma term_dispatch_input [simp]:
  "filter is_terminal (trace (dispatch_input w)) = filter is_terminal (trace w)"
  by (simp add: dispatch_input_def emit_def split: option.splits)

lemma enrichContent_effect:
  "(\<exists>out. fst (enrichContent t0 format st w) = Inr out) \<and>
   filter is_network (trace (snd (enrichContent t0 format st w))) = filter is_network (trace w) \<and>
   filter is_terminal (trace (snd (enrichContent t0 format st w))) = filter is_terminal (trace w)"
  by (cases "enrich_try t0 format st") (simp_all add: enrichContent_def)

lemma enrichContent_cases:
  assumes "enrichContent t0 format st w = (r, w')"
  shows "(\<exists>out. r = Inr out) \<and>
         filter is_network (trace w') = filter is_network (trace w) \<and>
         filter is_terminal (trace w') = filter is_terminal (trace w)"
  using enrichContent_effect [of t0 format st w] assms by simp

lemma autoFormatLocal_cases:
  "autoFormatLocal w = (r, w') \<Longrightarrow>
   (\<forall>x. r \<noteq> Inr (Some x)) \<and>
   filter is_network (trace w') = filter is_network (trace w) \<and>
   filter is_terminal (trace w') = filter is_terminal (trace w)"
  by (auto simp: autoFormatLocal_def Let_def split: option.splits)

lemma ensureValidToken_cases:
  "ensureValidToken undisturbed cfg ev w = (r, w') \<Longrightarrow>
   filter is_network (trace w') = filter is_network (trace w) \<and>
   filter is_terminal (trace w') = filter is_terminal (trace w)"
  by (auto simp: ensureValidToken_def undisturbed_def Let_def emit_def
           split: option.splits refresh_outcome.splits if_splits)

lemma net_on_failure:
  "filter is_network (trace (on_failure cfg format t0 startTime err w)) =
   filter is_network (trace w)"
  by (auto simp: on_failure_def Let_def split: prod.splits sum.splits option.splits
           dest!: autoFormatLocal_cases)

lemma term_on_failure:
  "filter is_terminal (trace (on_failure cfg format t0 startTime err w)) =
   filter is_terminal (trace w) @ [Notify (user_message err) Error]"
  by (auto simp: on_failure_def Let_def split: prod.splits sum.splits option.splits
           dest!: autoFormatLocal_cases)

lemma net_await_response [simp]:
  "filter is_network (trace (await_response undisturbed ev pl attempt w)) =
   filter is_network (trace w) @ [Request pl]"
  by (simp add: await_response_def undisturbed_def emit_def Let_def split: fetch_outcome.splits)

lemma term_await_response [simp]:
  "filter is_terminal (trace (await_response undisturbed ev pl attempt w)) =
   filter is_terminal (trace w)"
  by (simp add: await_response_def undisturbed_def emit_def Let_def split: fetch_outcome.splits)

lemma net_sleep [simp]:
  "filter is_network (trace (sleep undisturbed waitTime w)) =
   filter is_network (trace w) @ [Sleep waitTime]"
  by (simp add: sleep_def undisturbed_def emit_def Let_def)

lemma term_sleep [simp]:
  "filter is_terminal (trace (sleep undisturbed waitTime w)) = filter is_terminal (trace w)"
  by (simp add: sleep_def undisturbed_def emit_def Let_def)

lemma attempt_try_cases:
  "attempt_try undisturbed cfg ev pl format textLength startTime attempt w = (r, w') \<Longrightarrow>
   filter is_network (trace w') = filter is_network (trace w) @ [Request pl] \<and>
   (case r of
      Inr u \<Rightarrow> succeeds (responses ev attempt) \<and>
               (\<exists>m. filter is_terminal (trace w') = filter is_terminal (trace w) @ [Notify m Success])
    | Inl err \<Rightarrow> read_response (responses ev attempt) = Inl err \<and>
                 filter is_terminal (trace w') = filter is_terminal (trace w))"
  by (auto simp: attempt_try_def Let_def succeeds_def
           split: prod.splits sum.splits dest!: enrichContent_cases)


declare retry_loop.simps [simp del]

lemma schedule_last: "schedule pl k k = [Request pl]"
  by (simp add: schedule_def)

lemma loop_step_success:
  assumes "a \<le> RETRY_ATTEMPTS cfg" and "succeeds (responses ev a)"
  shows "\<exists>w' m. retry_loop undisturbed cfg ev pl format n st a le w = (Returned, w') \<and>
           filter is_network (trace w') = filter is_network (trace w) @ [Request pl] \<and>
           filter is_terminal (trace w') = filter is_terminal (trace w) @ [Notify m Success]"
proof -
  obtain r w1 where at: "attempt_try undisturbed cfg ev pl format n st a w = (r, w1)"
    by (cases "attempt_try undisturbed cfg ev pl format n st a w")
  from attempt_try_cases [OF at] assms(2) obtain u where "r = Inr u"
    by (cases r) (auto simp: succeeds_def)
  with attempt_try_cases [OF at] at assms(1) show ?thesis
    by (subst retry_loop.simps) auto
qed

lemma loop_step_timeout:
  assumes "a \<le> RETRY_ATTEMPTS cfg" and "times_out (responses ev a)"
  shows "\<exists>w'. retry_loop undisturbed cfg ev pl format n st a le w =
              (Thrown (new_Error (js ''Processing timeout after '' @
                        show_thousandths (TIMEOUT_MS cfg) @ js '' seconds'')), w') \<and>
           filter is_network (trace w') = filter is_network (trace w) @ [Request pl] \<and>
           filter is_terminal (trace w') = filter is_terminal (trace w)"
proof -
  obtain r w1 where at: "attempt_try undisturbed cfg ev pl format n st a w = (r, w1)"
    by (cases "attempt_try undisturbed cfg ev pl format n st a w")
  from attempt_try_cases [OF at] assms(2) obtain err
    where "r = Inl err" and "err_name err = js ''AbortError''"
    by (cases r) (auto simp: times_out_def succeeds_def split: sum.splits)
  with attempt_try_cases [OF at] at assms(1) show ?thesis
    by (subst retry_loop.simps) auto
qed

lemma loop_step_last:
  assumes "a = RETRY_ATTEMPTS cfg" and "fails_retryably (responses ev a)"
  shows "\<exists>w' err. retry_loop undisturbed cfg ev pl format n st a le w = (Thrown err, w') \<and>
           read_response (responses ev a) = Inl err \<and>
           filter is_network (trace w') = filter is_network (trace w) @ [Request pl] \<and>
           filter is_terminal (trace w') = filter is_terminal (trace w)"
proof -
  obtain r w1 where at: "attempt_try undisturbed cfg ev pl format n st a w = (r, w1)"
    by (cases "attempt_try undisturbed cfg ev pl format n st a w")
  from attempt_try_cases [OF at] assms(2) obtain err
    where "r = Inl err" and "err_name err \<noteq> js ''AbortError''"
    by (cases r) (auto simp: fails_retryably_def succeeds_def split: sum.splits)
  with attempt_try_cases [OF at] at assms(1) show ?thesis
    by (subst retry_loop.simps) auto
qed

lemma loop_step_retry:
  assumes "a < RETRY_ATTEMPTS cfg" and "fails_retryably (responses ev a)"
  shows "\<exists>w3 err. retry_loop undisturbed cfg ev pl format n st a le w =
                  retry_loop undisturbed cfg ev pl format n st (Suc a) (Some err) w3 \<and>
           filter is_network (trace w3) =
             filter is_network (trace w) @ [Request pl, Sleep (2 ^ a * 1000)] \<and>
           filter is_terminal (trace w3) = filter is_terminal (trace w)"
proof -
  obtain r w1 where at: "attempt_try undisturbed cfg ev pl format n st a w = (r, w1)"
    by (cases "attempt_try undisturbed cfg ev pl format n st a w")
  from attempt_try_cases [OF at] assms(2) obtain err
    where "r = Inl err" and "err_name err \<noteq> js ''AbortError''"
    by (cases r) (auto simp: fails_retryably_def succeeds_def split: sum.splits)
  with attempt_try_cases [OF at] at assms(1) show ?thesis
    by (subst retry_loop.simps) (auto simp: Let_def)
qed


lemma loop_skip:
  assumes "a \<le> j" and "j \<le> RETRY_ATTEMPTS cfg"
    and "\<forall>i. a \<le> i \<and> i < j \<longrightarrow> fails_retryably (responses ev i)"
  shows "\<exists>w3 le'. retry_loop undisturbed cfg ev pl format n st a le w =
                   retry_loop undisturbed cfg ev pl format n st j le' w3 \<and>
           filter is_network (trace w3) =
             filter is_network (trace w) @
             concat (map (\<lambda>n. [Request pl, Sleep (2 ^ n * 1000)]) [a..<j]) \<and>
           filter is_terminal (trace w3) = filter is_terminal (trace w)"
  using assms
proof (induction "j - a" arbitrary: a le w)
  case 0
  then have "a = j" by simp
  then show ?case by auto
next
  case (Suc d)
  then have lt: "a < j" and lt': "a < RETRY_ATTEMPTS cfg" by simp_all
  with Suc.prems have "fails_retryably (responses ev a)" by simp
  from loop_step_retry [OF lt' this, of pl format n st le w] obtain w1 err
    where step: "retry_loop undisturbed cfg ev pl format n st a le w =
                 retry_loop undisturbed cfg ev pl format n st (Suc a) (Some err) w1"
      and n1: "filter is_network (trace w1) =
               filter is_network (trace w) @ [Request pl, Sleep (2 ^ a * 1000)]"
      and t1: "filter is_terminal (trace w1) = filter is_terminal (trace w)"
    by blast
  have "d = j - Suc a" using Suc.hyps(2) by simp
  moreover have "Suc a \<le> j" using lt by simp
  moreover have "\<forall>i. Suc a \<le> i \<and> i < j \<longrightarrow> fails_retryably (responses ev i)"
    using Suc.prems(3) by simp
  ultimately obtain w3 le'
    where "retry_loop undisturbed cfg ev pl format n st (Suc a) (Some err) w1 =
           retry_loop undisturbed cfg ev pl format n st j le' w3"
      and "filter is_network (trace w3) =
           filter is_network (trace w1) @
           concat (map (\<lambda>n. [Request pl, Sleep (2 ^ n * 1000)]) [Suc a..<j])"
      and "filter is_terminal (trace w3) = filter is_terminal (trace w1)"
    using Suc.hyps(1) [of "Suc a" "Some err" w1] Suc.prems(2) by blast
  with step n1 t1 lt show ?case by (auto simp: upt_conv_Cons)
qed

lemma loop_run_success:
  assumes "a \<le> k" and "k \<le> RETRY_ATTEMPTS cfg"
    and "\<forall>i. a \<le> i \<and> i < k \<longrightarrow> fails_retryably (responses ev i)"
    and "succeeds (responses ev k)"
  shows "\<exists>w' m. retry_loop undisturbed cfg ev pl format n st a le w = (Returned, w') \<and>
           filter is_network (trace w') = filter is_network (trace w) @ schedule pl a k \<and>
           filter is_terminal (trace w') = filter is_terminal (trace w) @ [Notify m Success]"
proof -
  from loop_skip [OF assms(1-3), of pl format n st le w] obtain w3 le'
    where "retry_loop undisturbed cfg ev pl format n st a le w = retry_loop undisturbed cfg ev pl format n st k le' w3"
      and "filter is_network (trace w3) =
           filter is_network (trace w) @
           concat (map (\<lambda>n. [Request pl, Sleep (2 ^ n * 1000)]) [a..<k])"
      and "filter is_terminal (trace w3) = filter is_terminal (trace w)"
    by blast
  with loop_step_success [OF assms(2,4), of pl format n st le' w3] show ?thesis
    by (auto simp: schedule_def)
qed

lemma loop_run_timeout:
  assumes "a \<le> j" and "j \<le> RETRY_ATTEMPTS cfg"
    and "\<forall>i. a \<le> i \<and> i < j \<longrightarrow> fails_retryably (responses ev i)"
    and "times_out (responses ev j)"
  shows "\<exists>w'. retry_loop undisturbed cfg ev pl format n st a le w =
              (Thrown (new_Error (js ''Processing timeout after '' @
                        show_thousandths (TIMEOUT_MS cfg) @ js '' seconds'')), w') \<and>
           filter is_network (trace w') = filter is_network (trace w) @ schedule pl a j \<and>
           filter is_terminal (trace w') = filter is_terminal (trace w)"
proof -
  from loop_skip [OF assms(1-3), of pl format n st le w] obtain w3 le'
    where "retry_loop undisturbed cfg ev pl format n st a le w = retry_loop undisturbed cfg ev pl format n st j le' w3"
      and "filter is_network (trace w3) =
           filter is_network (trace w) @
           concat (map (\<lambda>n. [Request pl, Sleep (2 ^ n * 1000)]) [a..<j])"
      and "filter is_terminal (trace w3) = filter is_terminal (trace w)"
    by blast
  with loop_step_timeout [OF assms(2,4), of pl format n st le' w3] show ?thesis
    by (auto simp: schedule_def)
qed

lemma loop_run_exhausted:
  assumes "a \<le> RETRY_ATTEMPTS cfg"
    and "\<forall>i. a \<le> i \<and> i \<le> RETRY_ATTEMPTS cfg \<longrightarrow> fails_retryably (responses ev i)"
  shows "\<exists>w' err. retry_loop undisturbed cfg ev pl format n st a le w = (Thrown err, w') \<and>
           read_response (responses ev (RETRY_ATTEMPTS cfg)) = Inl err \<and>
           filter is_network (trace w') =
             filter is_network (trace w) @ schedule pl a (RETRY_ATTEMPTS cfg) \<and>
           filter is_terminal (trace w') = filter is_terminal (trace w)"
proof -
  have "\<forall>i. a \<le> i \<and> i < RETRY_ATTEMPTS cfg \<longrightarrow> fails_retryably (responses ev i)"
    using assms(2) by simp
  from loop_skip [OF assms(1) order_refl this, of pl format n st le w] obtain w3 le'
    where "retry_loop undisturbed cfg ev pl format n st a le w =
           retry_loop undisturbed cfg ev pl format n st (RETRY_ATTEMPTS cfg) le' w3"
      and "filter is_network (trace w3) =
           filter is_network (trace w) @
           concat (map (\<lambda>n. [Request pl, Sleep (2 ^ n * 1000)]) [a..<RETRY_ATTEMPTS cfg])"
      and "filter is_terminal (trace w3) = filter is_terminal (trace w)"
    by blast
  moreover have "fails_retryably (responses ev (RETRY_ATTEMPTS cfg))"
    using assms by simp
  from loop_step_last [OF refl this, of pl format n st le' w3]
  have "\<exists>w' err. retry_loop undisturbed cfg ev pl format n st (RETRY_ATTEMPTS cfg) le' w3 = (Thrown err, w') \<and>
           read_response (responses ev (RETRY_ATTEMPTS cfg)) = Inl err \<and>
           filter is_network (trace w') = filter is_network (trace w3) @ [Request pl] \<and>
           filter is_terminal (trace w') = filter is_terminal (trace w3)" .
  ultimately show ?thesis
    by (auto simp: schedule_def)
qed

lemma loop_effect:
  "\<exists>E m. filter is_network (trace (snd (retry_loop undisturbed cfg ev pl format n st a le w))) =
            filter is_network (trace w) @ E \<and>
          filter is_terminal (trace (snd (retry_loop undisturbed cfg ev pl format n st a le w))) =
            filter is_terminal (trace w) @
            (if fst (retry_loop undisturbed cfg ev pl format n st a le w) = Returned
             then [Notify m Success] else [])"
proof (induction "Suc (RETRY_ATTEMPTS cfg) - a" arbitrary: a le w)
  case 0
  then have "\<not> a \<le> RETRY_ATTEMPTS cfg" by simp
  then show ?case by (subst (1 2 3) retry_loop.simps) simp
next
  case (Suc d)
  then have le: "a \<le> RETRY_ATTEMPTS cfg" by simp
  obtain r w1 where at: "attempt_try undisturbed cfg ev pl format n st a w = (r, w1)"
    by (cases "attempt_try undisturbed cfg ev pl format n st a w")
  note fx = attempt_try_cases [OF at]
  show ?case
  proof (cases r)
    case (Inr u)
    with fx at le show ?thesis
      by (subst (1 2 3) retry_loop.simps) auto
  next
    case (Inl err)
    show ?thesis
    proof (cases "err_name err = js ''AbortError'' \<or> a = RETRY_ATTEMPTS cfg")
      case True
      with Inl fx at le show ?thesis
        by (subst (1 2 3) retry_loop.simps) auto
    next
      case False
      define w3 where "w3 = sleep undisturbed (2 ^ a * 1000)
             (showNotification ([0x23F3] @ js '' Retrying in '' @
                show_thousandths (2 ^ a * 1000) @ js '' seconds...'') Info w1)"
      have step: "retry_loop undisturbed cfg ev pl format n st a le w =
                  retry_loop undisturbed cfg ev pl format n st (Suc a) (Some err) w3"
        using False Inl at le by (subst retry_loop.simps) (simp add: Let_def w3_def)
      have n3: "filter is_network (trace w3) =
                filter is_network (trace w) @ [Request pl, Sleep (2 ^ a * 1000)]"
        and t3: "filter is_terminal (trace w3) = filter is_terminal (trace w)"
        using fx Inl by (simp_all add: w3_def)
      have "d = Suc (RETRY_ATTEMPTS cfg) - Suc a" using Suc.hyps(2) by simp
      from Suc.hyps(1) [OF this, of "Some err" w3] n3 t3 step show ?thesis
        by auto
    qed
  qed
qed

lemma loop_first_request:
  assumes "a \<le> RETRY_ATTEMPTS cfg"
  shows "\<exists>rest. filter is_network (trace (snd (retry_loop undisturbed cfg ev pl format n st a le w))) =
           filter is_network (trace w) @ Request pl # rest"
proof -
  obtain r w1 where at: "attempt_try undisturbed cfg ev pl format n st a w = (r, w1)"
    by (cases "attempt_try undisturbed cfg ev pl format n st a w")
  note fx = attempt_try_cases [OF at]
  show ?thesis
  proof (cases "\<exists>err. r = Inl err \<and> err_name err \<noteq> js ''AbortError'' \<and> a \<noteq> RETRY_ATTEMPTS cfg")
    case False
    with fx at assms show ?thesis
      by (subst retry_loop.simps) (cases r; auto)
  next
    case True
    then obtain err where r: "r = Inl err" "err_name err \<noteq> js ''AbortError''"
      "a \<noteq> RETRY_ATTEMPTS cfg" by blast
    define w3 where "w3 = sleep undisturbed (2 ^ a * 1000)
             (showNotification ([0x23F3] @ js '' Retrying in '' @
                show_thousandths (2 ^ a * 1000) @ js '' seconds...'') Info w1)"
    have step: "retry_loop undisturbed cfg ev pl format n st a le w =
                retry_loop undisturbed cfg ev pl format n st (Suc a) (Some err) w3"
      using r at assms by (subst retry_loop.simps) (simp add: Let_def w3_def)
    have n3: "filter is_network (trace w3) =
              filter is_network (trace w) @ [Request pl, Sleep (2 ^ a * 1000)]"
      using fx r by (simp add: w3_def)
    from loop_effect [of cfg ev pl format n st "Suc a" "Some err" w3] n3 step show ?thesis
      by auto
  qed
qed

lemma loop_run_retried:
  assumes "a \<le> j" and "j < RETRY_ATTEMPTS cfg"
    and "\<forall>i. a \<le> i \<and> i \<le> j \<longrightarrow> fails_retryably (responses ev i)"
  shows "\<exists>rest. filter is_network (trace (snd (retry_loop undisturbed cfg ev pl format n st a le w))) =
           filter is_network (trace w) @ schedule pl a (Suc j) @ rest"
proof -
  have "a \<le> Suc j" "Suc j \<le> RETRY_ATTEMPTS cfg"
    "\<forall>i. a \<le> i \<and> i < Suc j \<longrightarrow> fails_retryably (responses ev i)"
    using assms by simp_all
  from loop_skip [OF this, of pl format n st le w] obtain w3 le'
    where "retry_loop undisturbed cfg ev pl format n st a le w =
           retry_loop undisturbed cfg ev pl format n st (Suc j) le' w3"
      and "filter is_network (trace w3) =
           filter is_network (trace w) @
           concat (map (\<lambda>n. [Request pl, Sleep (2 ^ n * 1000)]) [a..<Suc j])"
    by blast
  with loop_first_request [of "Suc j" cfg ev pl format n st le' w3] assms(2) show ?thesis
    by (auto simp: schedule_def)
qed

lemma token_check_locked:
  "fst (ensureValidToken undisturbed cfg ev
          (update_button present f (w\<lparr>state := (state w)\<lparr>isProcessing := b\<rparr>\<rparr>))) =
   fst (ensureValidToken undisturbed cfg ev w)"
  by (cases present)
     (auto simp: ensureValidToken_def update_button_def undisturbed_def Let_def
           split: option.splits refresh_outcome.splits)

lemma net_update_button [simp]:
  "filter is_network (trace (update_button present f w)) = filter is_network (trace w)"
  by (simp add: update_button_def)

lemma term_update_button [simp]:
  "filter is_terminal (trace (update_button present f w)) = filter is_terminal (trace w)"
  by (simp add: update_button_def)

lemma flag_update_button [simp]:
  "isProcessing (state (update_button present f w)) = isProcessing (state w)"
  by (simp add: update_button_def)

lemma locked_run_releases [simp]:
  "\<not> isProcessing (state (locked_run meanwhile cfg ev format customPrompt t0 st present w1))"
  by (simp add: locked_run_def Let_def)

lemma locked_run_effect:
  assumes "fst (ensureValidToken undisturbed cfg ev w) \<or> \<not> ENABLE_JWT cfg"
  shows "\<exists>pl w0.
           p_text pl = t0 \<and> p_format pl = format \<and>
           filter is_network (trace w0) = filter is_network (trace w) \<and>
           filter is_terminal (trace w0) = filter is_terminal (trace w) \<and>
           filter is_network
             (trace (locked_run undisturbed cfg ev format customPrompt t0 st present
                (w\<lparr>state := (state w)\<lparr>isProcessing := True\<rparr>\<rparr>))) =
             filter is_network
               (trace (snd (retry_loop undisturbed cfg ev pl format (length t0) st 1 None w0))) \<and>
           filter is_terminal
             (trace (locked_run undisturbed cfg ev format customPrompt t0 st present
                (w\<lparr>state := (state w)\<lparr>isProcessing := True\<rparr>\<rparr>))) =
             filter is_terminal
               (trace (snd (retry_loop undisturbed cfg ev pl format (length t0) st 1 None w0))) @
             (case fst (retry_loop undisturbed cfg ev pl format (length t0) st 1 None w0) of
                Returned \<Rightarrow> []
              | Thrown err \<Rightarrow> [Notify (user_message err) Error]
              | FellThrough lastErr \<Rightarrow>
                  [Notify (user_message (case lastErr of Some err \<Rightarrow> err
                      | None \<Rightarrow> new_Error (js ''All retry attempts failed''))) Error])"
proof -
  define w2 where "w2 = update_button present
      (\<lambda>b. b\<lparr>innerHTML := [0xD83D, 0xDD04] @ js '' Processing...'',
             disabled := True, opacity := js ''0.6''\<rparr>)
      (w\<lparr>state := (state w)\<lparr>isProcessing := True\<rparr>\<rparr>)"
  obtain tv w0 where tok: "ensureValidToken undisturbed cfg ev w2 = (tv, w0)"
    by (cases "ensureValidToken undisturbed cfg ev w2")
  have "fst (ensureValidToken undisturbed cfg ev w2) = fst (ensureValidToken undisturbed cfg ev w)"
    unfolding w2_def by (rule token_check_locked)
  with assms tok have tv: "tv \<or> \<not> ENABLE_JWT cfg"
    by auto
  have nt: "filter is_network (trace w0) = filter is_network (trace w)"
    "filter is_terminal (trace w0) = filter is_terminal (trace w)"
    using ensureValidToken_cases [OF tok] by (simp_all add: w2_def)
  define pl where "pl = build_payload cfg t0 format customPrompt w0"
  obtain x wl where lp: "retry_loop undisturbed cfg ev pl format (length t0) st 1 None w0 = (x, wl)"
    by (cases "retry_loop undisturbed cfg ev pl format (length t0) st 1 None w0")
  have pt: "pipeline_try undisturbed cfg ev format customPrompt t0 st w2 =
            (case x of Returned \<Rightarrow> (Inr (), wl) | Thrown err \<Rightarrow> (Inl err, wl)
             | FellThrough lastErr \<Rightarrow> (Inl (case lastErr of Some err \<Rightarrow> err
                      | None \<Rightarrow> new_Error (js ''All retry attempts failed'')), wl))"
    using tok tv lp by (auto simp: pipeline_try_def pl_def split: loop_exit.splits)
  have "filter is_network
          (trace (locked_run undisturbed cfg ev format customPrompt t0 st present
             (w\<lparr>state := (state w)\<lparr>isProcessing := True\<rparr>\<rparr>))) =
          filter is_network (trace wl) \<and>
        filter is_terminal
          (trace (locked_run undisturbed cfg ev format customPrompt t0 st present
             (w\<lparr>state := (state w)\<lparr>isProcessing := True\<rparr>\<rparr>))) =
          filter is_terminal (trace wl) @
          (case x of Returned \<Rightarrow> [] | Thrown err \<Rightarrow> [Notify (user_message err) Error]
           | FellThrough lastErr \<Rightarrow>
                  [Notify (user_message (case lastErr of Some err \<Rightarrow> err
                      | None \<Rightarrow> new_Error (js ''All retry attempts failed''))) Error])"
    using pt unfolding w2_def
    by (cases x) (simp_all add: locked_run_def Let_def net_on_failure term_on_failure)
  moreover have "p_text pl = t0" "p_format pl = format"
    by (simp_all add: pl_def build_payload_def)
  ultimately show ?thesis using nt lp
    by (intro exI [of _ pl] exI [of _ w0]) simp
qed

lemma accepted_call:
  assumes "reaches_loop cfg ev element format0 w"
  shows "\<exists>pl w0.
           p_text pl = trimmed_input w \<and> p_format pl = resolved_format element format0 \<and>
           filter is_network (trace w0) = filter is_network (trace w) \<and>
           filter is_terminal (trace w0) = filter is_terminal (trace w) \<and>
           filter is_network
             (trace (snd (processWithAI undisturbed cfg ev element format0 customPrompt w))) =
             filter is_network (trace (snd (retry_loop undisturbed cfg ev pl
                (resolved_format element format0) (length (trimmed_input w)) (now w) 1 None w0))) \<and>
           filter is_terminal
             (trace (snd (processWithAI undisturbed cfg ev element format0 customPrompt w))) =
             filter is_terminal (trace (snd (retry_loop undisturbed cfg ev pl
                (resolved_format element format0) (length (trimmed_input w)) (now w) 1 None w0))) @
             (case fst (retry_loop undisturbed cfg ev pl (resolved_format element format0)
                (length (trimmed_input w)) (now w) 1 None w0) of
                Returned \<Rightarrow> []
              | Thrown err \<Rightarrow> [Notify (user_message err) Error]
              | FellThrough lastErr \<Rightarrow>
                  [Notify (user_message (case lastErr of Some err \<Rightarrow> err
                      | None \<Rightarrow> new_Error (js ''All retry attempts failed''))) Error])"
proof -
  have ok: "trimmed_input w \<noteq> []" "\<not> length (trimmed_input w) > MAX_TEXT_LENGTH cfg"
    "\<not> isProcessing (state w)"
    and nothrow: "\<not> throws (find_button ev element (resolved_format element format0))"
    and tok: "fst (ensureValidToken undisturbed cfg ev w) \<or> \<not> ENABLE_JWT cfg"
    using assms by (auto simp: reaches_loop_def accepted_def)
  from nothrow obtain present where run:
    "snd (processWithAI undisturbed cfg ev element format0 customPrompt w) =
     locked_run undisturbed cfg ev (resolved_format element format0) customPrompt
       (trimmed_input w) (now w) present (w\<lparr>state := (state w)\<lparr>isProcessing := True\<rparr>\<rparr>)"
    using ok
    by (cases "find_button ev element (resolved_format element format0)")
       (auto simp: processWithAI_def Let_def)
  from locked_run_effect [OF tok, of "trimmed_input w" "resolved_format element format0"
      customPrompt "now w" present]
  show ?thesis unfolding run .
qed

subsection \<open>Searching a string\<close>

lemma startsWith_iff: "startsWith s p \<longleftrightarrow> (\<exists>v. s = p @ v)"
proof
  assume "startsWith s p"
  then have "s = p @ drop (length p) s"
    by (metis append_take_drop_id startsWith_def)
  then show "\<exists>v. s = p @ v" ..
next
  assume "\<exists>v. s = p @ v"
  then show "startsWith s p" by (auto simp: startsWith_def)
qed

lemma js_includes_iff: "js_includes s p \<longleftrightarrow> (\<exists>u v. s = u @ p @ v)"
proof (induction s)
  case Nil
  then show ?case by auto
next
  case (Cons c cs)
  show ?case
  proof
    assume "js_includes (c # cs) p"
    then consider "startsWith (c # cs) p" | "js_includes cs p" by auto
    then show "\<exists>u v. c # cs = u @ p @ v"
    proof cases
      case 1
      then obtain v where "c # cs = p @ v" by (auto simp: startsWith_iff)
      then have "c # cs = [] @ p @ v" by simp
      then show ?thesis by blast
    next
      case 2
      with Cons.IH obtain u v where "cs = u @ p @ v" by blast
      then have "c # cs = (c # u) @ p @ v" by simp
      then show ?thesis by blast
    qed
  next
    assume "\<exists>u v. c # cs = u @ p @ v"
    then obtain u v where uv: "c # cs = u @ p @ v" by blast
    show "js_includes (c # cs) p"
    proof (cases u)
      case Nil
      with uv have "startsWith (c # cs) p" by (auto simp: startsWith_iff)
      then show ?thesis by simp
    next
      case (Cons a u')
      with uv have "cs = u' @ p @ v" by simp
      with Cons.IH have "js_includes cs p" by blast
      then show ?thesis by simp
    qed
  qed
qed

lemma digits_lt: "d \<in> set (digits n) \<Longrightarrow> d < 10"
proof (induction n rule: digits.induct)
  case (1 n)
  show ?case
  proof (cases "n < 10")
    case True
    with "1.prems" show ?thesis by (simp add: digits.simps [of n])
  next
    case False
    with "1.prems" "1.IH" show ?thesis
      by (auto simp: digits.simps [of n])
  qed
qed

lemma show_thousandths_chars:
  assumes "x \<in> set (show_thousandths n)"
  shows "x = 46 \<or> (48 \<le> x \<and> x < 58)"
proof -
  have a: "x \<in> set (show_nat m) \<Longrightarrow> 48 \<le> x \<and> x < 58" for m
    by (auto simp: show_nat_def dest: digits_lt)
  have b: "x \<in> set (rev (dropWhile (\<lambda>d. d = 48)
                  (rev (map (\<lambda>d. 48 + d)
                     [n mod 1000 div 100, n mod 100 div 10, n mod 10])))) \<Longrightarrow> 48 \<le> x \<and> x < 58"
  proof -
    assume "x \<in> set (rev (dropWhile (\<lambda>d. d = 48)
                  (rev (map (\<lambda>d. 48 + d)
                     [n mod 1000 div 100, n mod 100 div 10, n mod 10]))))"
    then have "x \<in> set (map (\<lambda>d. 48 + d) [n mod 1000 div 100, n mod 100 div 10, n mod 10])"
      by (metis set_dropWhileD set_rev)
    moreover have "n mod 1000 div 100 < 10" "n mod 100 div 10 < 10" "n mod 10 < 10"
      by simp_all
    ultimately show ?thesis by auto
  qed
  from assms a b show ?thesis
    by (auto simp: show_thousandths_def split: if_splits)
qed

lemma timeout_message:
  "user_message (new_Error (js ''Processing timeout after '' @ show_thousandths n @
                            js '' seconds'')) =
   [0x274C] @ js '' Processing failed: Request timed out. The service may be busy, please try again.''"
proof -
  define m where "m = js ''Processing timeout after '' @ show_thousandths n @ js '' seconds''"
  have "m = js ''Processing '' @ js ''timeout'' @ (js '' after '' @ show_thousandths n @ js '' seconds'')"
    by (simp add: m_def js_def)
  then have yes: "js_includes m (js ''timeout'')"
    unfolding js_includes_iff by blast
  have no: "\<not> js_includes m (js ''fetch'')"
  proof
    assume "js_includes m (js ''fetch'')"
    then obtain u v where uv: "m = u @ js ''fetch'' @ v"
      unfolding js_includes_iff by blast
    have split: "m = js ''Processing timeout a'' @ 102 # (js ''ter '' @ show_thousandths n @ js '' seconds'')"
      by (simp add: m_def js_def)
    have "102 \<notin> set (js ''Processing timeout a'')"
      by (simp add: js_def)
    moreover have "102 \<notin> set (js ''ter '' @ show_thousandths n @ js '' seconds'')"
      using show_thousandths_chars [of 102 n] by (auto simp: js_def)
    moreover have "js ''Processing timeout a'' @ 102 # (js ''ter '' @ show_thousandths n @ js '' seconds'')
        = u @ 102 # (js ''etch'' @ v)"
      using uv split by (simp add: js_def)
    ultimately have "js ''ter '' @ show_thousandths n @ js '' seconds'' = js ''etch'' @ v"
      by (metis append_Cons_eq_iff)
    then show False by (simp add: js_def)
  qed
  show ?thesis
    using yes no
    by (simp add: user_message_def new_Error_def m_def [symmetric] Let_def) (simp add: js_def)
qed

subsection \<open>Sorting the outcomes of an attempt\<close>

lemma requests_of_network:
  "filter is_request xs = filter is_request (filter is_network xs)"
proof (induction xs)
  case Nil
  then show ?case by simp
next
  case (Cons e es)
  then show ?case by (cases e) simp_all
qed

lemma requests_schedule:
  "length (filter is_request (schedule pl a k)) = Suc (k - a)"
  by (simp add: schedule_def filter_concat comp_def length_concat sum_list_triv)

lemma malformed_is_retryable:
  "malformed_success outcome \<Longrightarrow> fails_retryably outcome"
  by (auto simp: malformed_success_def fails_retryably_def read_response_def new_Error_def js_def
           split: fetch_outcome.splits body_read.splits option.splits)

lemma http_error_is_retryable:
  "\<not> ok r \<Longrightarrow> fails_retryably (FetchResponds r)"
  by (simp add: fails_retryably_def read_response_def new_Error_def js_def Let_def)

lemma network_failure_is_retryable:
  "err_name err \<noteq> js ''AbortError'' \<Longrightarrow> fails_retryably (FetchRejects err)"
  by (simp add: fails_retryably_def read_response_def)

lemma abort_times_out:
  "times_out (FetchRejects AbortError) \<and> \<not> fails_retryably (FetchRejects AbortError)"
  by (simp add: times_out_def fails_retryably_def read_response_def AbortError_def)

text \<open>The definitions that a run on a concrete scenario unfolds.\<close>

lemmas run_defs =
  processWithAI_def pipeline_try_def on_failure_def retry_loop.simps attempt_try_def
  read_response_def ensureValidToken_def build_payload_def select_prompt_def or_else_def
  prompts_def user_message_def autoFormatLocal_def enrichContent_def enrich_try_def
  enrichGenericContent_def formatAsArticle_def formatAsCode_def formatAsTutorial_def
  dispatch_input_def showNotification_def emit_def logError_def new_Error_def stack_of_def
  trimmed_input_def resolved_format_def trim_def is_space_def startsWith_def
  show_nat_def show_thousandths_def digits.simps js_def Let_def
  CONFIG_def idle_world_def busy_world_def idle_state_def scenario_def scripted_def instant_def
  http_500_def well_formed_def missing_text_def timed_out_def AbortError_def
  locked_run_def update_button_def find_button_def no_button_def undisturbed_def
  await_response_def sleep_def
  table_prompt_def accepted_def reaches_loop_def

subsection \<open>A call that holds the flag\<close>

text \<open>
  What stays true of a call while the processing is triggered again at its suspensions: the
  flag is set from the lookup of the button to the \<open>finally\<close> block, so every such trigger is
  turned away.
\<close>

lemma flag_showNotification [simp]: "state (showNotification m t w) = state w"
  by (simp add: showNotification_def emit_def)

lemma flag_emit [simp]: "state (emit e w) = state w"
  by (simp add: emit_def)

lemma flag_logError [simp]:
  "isProcessing (state (logError m err c w)) = isProcessing (state w)"
  by (simp add: logError_def Let_def emit_def)

lemma flag_dispatch_input [simp]:
  "isProcessing (state (dispatch_input w)) = isProcessing (state w)"
  by (simp add: dispatch_input_def emit_def split: option.splits)

lemma enrichContent_held:
  assumes "enrichContent t0 format st w = (r, w')"
  shows "(\<exists>out. r = Inr out) \<and> isProcessing (state w') = isProcessing (state w) \<and>
         filter is_network (trace w') = filter is_network (trace w)"
proof -
  have "isProcessing (state (snd (enrichContent t0 format st w))) = isProcessing (state w)"
    by (cases "enrich_try t0 format st") (simp_all add: enrichContent_def)
  with enrichContent_effect [of t0 format st w] assms show ?thesis by simp
qed

lemma rejected_while_busy:
  assumes "isProcessing (state w)"
  shows "\<exists>m t. processWithAI meanwhile cfg ev element format0 customPrompt w =
                  (Resolved, showNotification m t w) \<and>
           (t = Warning \<or> t = Info) \<and>
           (trimmed_input w \<noteq> [] \<and> length (trimmed_input w) \<le> MAX_TEXT_LENGTH cfg \<longrightarrow>
              t = Info \<and> m = [0x23F3] @ js '' Please wait for current processing to complete'')"
  using assms by (auto simp: processWithAI_def Let_def)

lemma second_call_held:
  assumes "isProcessing (state x)"
  shows "isProcessing (state (second_call cfg ev element format0 customPrompt x)) \<and>
         filter is_network (trace (second_call cfg ev element format0 customPrompt x)) =
         filter is_network (trace x)"
proof -
  from rejected_while_busy [OF assms, of undisturbed cfg ev element format0 customPrompt]
  obtain m t where "processWithAI undisturbed cfg ev element format0 customPrompt x =
      (Resolved, showNotification m t x)"
    by blast
  with assms show ?thesis by (simp add: second_call_def)
qed

lemma await_response_held:
  assumes H: "\<And>x. isProcessing (state x) \<Longrightarrow>
      isProcessing (state (m x)) \<and> filter is_network (trace (m x)) = filter is_network (trace x)"
    and "isProcessing (state w)"
  shows "isProcessing (state (await_response m ev pl attempt w)) \<and>
         filter is_network (trace (await_response m ev pl attempt w)) =
         filter is_network (trace w) @ [Request pl]"
proof -
  define fetched where "fetched = m (emit (Request pl) w)"
  define settled where "settled = fetched\<lparr>now := now fetched + latency ev attempt\<rparr>"
  have "isProcessing (state (emit (Request pl) w))" using assms(2) by simp
  from H [OF this] have f: "isProcessing (state fetched)"
    "filter is_network (trace fetched) = filter is_network (trace w) @ [Request pl]"
    by (simp_all add: fetched_def emit_def)
  then have s: "isProcessing (state settled)"
    "filter is_network (trace settled) = filter is_network (trace w) @ [Request pl]"
    by (simp_all add: settled_def)
  from H [OF s(1)] s have b: "isProcessing (state (m settled))"
    "filter is_network (trace (m settled)) = filter is_network (trace w) @ [Request pl]"
    by simp_all
  have "await_response m ev pl attempt w =
        (case responses ev attempt of FetchRejects err \<Rightarrow> settled | FetchResponds r \<Rightarrow> m settled)"
    unfolding await_response_def Let_def fetched_def settled_def by (rule refl)
  with s b show ?thesis by (cases "responses ev attempt") simp_all
qed

lemma sleep_held:
  assumes H: "\<And>x. isProcessing (state x) \<Longrightarrow>
      isProcessing (state (m x)) \<and> filter is_network (trace (m x)) = filter is_network (trace x)"
    and "isProcessing (state w)"
  shows "isProcessing (state (sleep m waitTime w)) \<and>
         filter is_network (trace (sleep m waitTime w)) =
         filter is_network (trace w) @ [Sleep waitTime]"
proof -
  have "isProcessing (state (emit (Sleep waitTime) w))" using assms(2) by simp
  from H [OF this] show ?thesis
    by (simp add: sleep_def Let_def emit_def)
qed

lemma attempt_try_held:
  assumes H: "\<And>x. isProcessing (state x) \<Longrightarrow>
      isProcessing (state (m x)) \<and> filter is_network (trace (m x)) = filter is_network (trace x)"
    and "isProcessing (state w)"
    and "attempt_try m cfg ev pl format n st a w = (r, w')"
  shows "isProcessing (state w') \<and>
         filter is_network (trace w') = filter is_network (trace w) @ [Request pl]"
proof -
  define w1 where "w1 = showNotification
                 ([0xD83D, 0xDD04] @ js '' Processing attempt '' @ show_nat a @ js ''/'' @
                  show_nat (RETRY_ATTEMPTS cfg) @ js ''...'') Info w"
  have "isProcessing (state w1)" using assms(2) by (simp add: w1_def)
  from await_response_held [of m, OF H this, of ev pl a]
  have w2: "isProcessing (state (await_response m ev pl a w1))"
    "filter is_network (trace (await_response m ev pl a w1)) =
     filter is_network (trace w) @ [Request pl]"
    by (simp_all add: w1_def)
  show ?thesis
    using assms(3) w2 unfolding w1_def
    by (auto simp: attempt_try_def Let_def split: sum.splits prod.splits
          dest!: enrichContent_held)
qed


lemma retry_loop_held:
  assumes H: "\<And>x. isProcessing (state x) \<Longrightarrow>
      isProcessing (state (m x)) \<and> filter is_network (trace (m x)) = filter is_network (trace x)"
    and "isProcessing (state w)"
  shows "\<exists>E. filter is_network (trace (snd (retry_loop m cfg ev pl format n st a le w))) =
               filter is_network (trace w) @ E \<and>
             (\<forall>e\<in>set E. is_request e \<longrightarrow> e = Request pl)"
  using assms(2)
proof (induction "Suc (RETRY_ATTEMPTS cfg) - a" arbitrary: a le w)
  case 0
  then have "\<not> a \<le> RETRY_ATTEMPTS cfg" by simp
  then show ?case by (subst retry_loop.simps) simp
next
  case (Suc d)
  then have le: "a \<le> RETRY_ATTEMPTS cfg" by simp
  obtain r w1 where at: "attempt_try m cfg ev pl format n st a w = (r, w1)"
    by (cases "attempt_try m cfg ev pl format n st a w")
  from attempt_try_held [of m, OF H Suc.prems at]
  have w1: "isProcessing (state w1)"
    "filter is_network (trace w1) = filter is_network (trace w) @ [Request pl]"
    by simp_all
  show ?case
  proof (cases "\<exists>err. r = Inl err \<and> err_name err \<noteq> js ''AbortError'' \<and> a \<noteq> RETRY_ATTEMPTS cfg")
    case False
    then have "filter is_network (trace (snd (retry_loop m cfg ev pl format n st a le w))) =
        filter is_network (trace w) @ [Request pl]"
      using at le w1 by (subst retry_loop.simps) (cases r; auto)
    then show ?thesis by simp
  next
    case True
    then obtain err where r: "r = Inl err" "err_name err \<noteq> js ''AbortError''"
      "a \<noteq> RETRY_ATTEMPTS cfg" by blast
    define w3 where "w3 = sleep m (2 ^ a * 1000)
        (showNotification ([0x23F3] @ js '' Retrying in '' @
           show_thousandths (2 ^ a * 1000) @ js '' seconds...'') Info w1)"
    have step: "retry_loop m cfg ev pl format n st a le w =
                retry_loop m cfg ev pl format n st (Suc a) (Some err) w3"
      using r at le by (subst retry_loop.simps) (simp add: Let_def w3_def)
    have "isProcessing (state (showNotification ([0x23F3] @ js '' Retrying in '' @
           show_thousandths (2 ^ a * 1000) @ js '' seconds...'') Info w1))"
      using w1 by simp
    from sleep_held [of m, OF H this, of "2 ^ a * 1000"] w1
    have w3: "isProcessing (state w3)"
      "filter is_network (trace w3) =
       filter is_network (trace w) @ [Request pl, Sleep (2 ^ a * 1000)]"
      by (simp_all add: w3_def)
    have "d = Suc (RETRY_ATTEMPTS cfg) - Suc a" using Suc.hyps(2) by simp
    from Suc.hyps(1) [OF this w3(1), of "Some err"] obtain E
      where "filter is_network (trace (snd (retry_loop m cfg ev pl format n st (Suc a)
               (Some err) w3))) = filter is_network (trace w3) @ E"
        and "\<forall>e\<in>set E. is_request e \<longrightarrow> e = Request pl"
      by blast
    with step w3 have "filter is_network (trace (snd (retry_loop m cfg ev pl format n st a le w))) =
         filter is_network (trace w) @ ([Request pl, Sleep (2 ^ a * 1000)] @ E) \<and>
         (\<forall>e\<in>set ([Request pl, Sleep (2 ^ a * 1000)] @ E). is_request e \<longrightarrow> e = Request pl)"
      by simp
    then show ?thesis by blast
  qed
qed

lemma ensureValidToken_held:
  assumes H: "\<And>x. isProcessing (state x) \<Longrightarrow>
      isProcessing (state (m x)) \<and> filter is_network (trace (m x)) = filter is_network (trace x)"
    and "isProcessing (state w)"
  shows "isProcessing (state (snd (ensureValidToken m cfg ev w))) \<and>
         filter is_network (trace (snd (ensureValidToken m cfg ev w))) =
         filter is_network (trace w)"
proof -
  have "isProcessing (state (emit TokenRefresh w))" using assms(2) by simp
  from H [OF this] have a: "isProcessing (state (m (emit TokenRefresh w)))"
    "filter is_network (trace (m (emit TokenRefresh w))) = filter is_network (trace w)"
    by (simp_all add: emit_def)
  from H [OF a(1)] a have b: "isProcessing (state (m (m (emit TokenRefresh w))))"
    "filter is_network (trace (m (m (emit TokenRefresh w)))) = filter is_network (trace w)"
    by simp_all
  show ?thesis
    using assms(2) a b
    by (simp add: ensureValidToken_def Let_def split: option.splits refresh_outcome.splits)
qed

lemma locked_run_held:
  assumes H: "\<And>x. isProcessing (state x) \<Longrightarrow>
      isProcessing (state (m x)) \<and> filter is_network (trace (m x)) = filter is_network (trace x)"
  shows "\<exists>pl E. p_text pl = t0 \<and>
           filter is_network
             (trace (locked_run m cfg ev format customPrompt t0 st present
                (w\<lparr>state := (state w)\<lparr>isProcessing := True\<rparr>\<rparr>))) =
           filter is_network (trace w) @ E \<and>
           (\<forall>e\<in>set E. is_request e \<longrightarrow> e = Request pl)"
proof -
  define w2 where "w2 = update_button present
      (\<lambda>b. b\<lparr>innerHTML := [0xD83D, 0xDD04] @ js '' Processing...'',
             disabled := True, opacity := js ''0.6''\<rparr>)
      (w\<lparr>state := (state w)\<lparr>isProcessing := True\<rparr>\<rparr>)"
  have w2: "isProcessing (state w2)" "filter is_network (trace w2) = filter is_network (trace w)"
    by (simp_all add: w2_def)
  obtain tv w0 where tok: "ensureValidToken m cfg ev w2 = (tv, w0)"
    by (cases "ensureValidToken m cfg ev w2")
  from ensureValidToken_held [of m, OF H w2(1), of cfg ev] tok w2
  have w0: "isProcessing (state w0)" "filter is_network (trace w0) = filter is_network (trace w)"
    by simp_all
  define pl where "pl = build_payload cfg t0 format customPrompt w0"
  have pl: "p_text pl = t0" by (simp add: pl_def build_payload_def)
  obtain x wl where lp: "retry_loop m cfg ev pl format (length t0) st 1 None w0 = (x, wl)"
    by (cases "retry_loop m cfg ev pl format (length t0) st 1 None w0")
  from retry_loop_held [of m, OF H w0(1), of cfg ev pl format "length t0" st 1 None] lp w0
  obtain E where E: "filter is_network (trace wl) = filter is_network (trace w) @ E"
    "\<forall>e\<in>set E. is_request e \<longrightarrow> e = Request pl"
    by auto
  have "\<exists>E'. filter is_network (trace (snd (pipeline_try m cfg ev format customPrompt t0 st w2))) =
          filter is_network (trace w) @ E' \<and> (\<forall>e\<in>set E'. is_request e \<longrightarrow> e = Request pl)"
  proof (cases "\<not> tv \<and> ENABLE_JWT cfg")
    case True
    with tok w0 have "filter is_network (trace (snd (pipeline_try m cfg ev format customPrompt
        t0 st w2))) = filter is_network (trace w) @ []"
      by (simp add: pipeline_try_def)
    then show ?thesis by (intro exI [of _ "[]"]) simp
  next
    case False
    with tok lp E(1) have "filter is_network (trace (snd (pipeline_try m cfg ev format
        customPrompt t0 st w2))) = filter is_network (trace w) @ E"
      by (cases x) (auto simp: pipeline_try_def pl_def)
    with E(2) show ?thesis by blast
  qed
  then obtain E' where E': "filter is_network (trace (snd (pipeline_try m cfg ev format
        customPrompt t0 st w2))) = filter is_network (trace w) @ E'"
    "\<forall>e\<in>set E'. is_request e \<longrightarrow> e = Request pl"
    by blast
  obtain r wr where pt: "pipeline_try m cfg ev format customPrompt t0 st w2 = (r, wr)"
    by (cases "pipeline_try m cfg ev format customPrompt t0 st w2")
  with E'(1) have "filter is_network
             (trace (locked_run m cfg ev format customPrompt t0 st present
                (w\<lparr>state := (state w)\<lparr>isProcessing := True\<rparr>\<rparr>))) =
           filter is_network (trace w) @ E'"
    unfolding w2_def by (cases r) (simp_all add: locked_run_def Let_def net_on_failure)
  with pl E'(2) show ?thesis by blast
qed

subsection \<open>How an accepted call ends\<close>

lemma errors_of_terminal: "filter is_error (filter is_terminal xs) = filter is_error xs"
proof -
  have a: "is_error e \<Longrightarrow> is_terminal e" for e
    by (cases e) auto
  show ?thesis
    by (induction xs) (auto dest: a)
qed

lemma error_shown:
  assumes "filter is_terminal xs = filter is_terminal ys @ [Notify m Error]"
  shows "filter is_error xs = filter is_error ys @ [Notify m Error]"
proof -
  have "filter is_error xs = filter is_error (filter is_terminal xs)"
    by (simp only: errors_of_terminal)
  also have "\<dots> = filter is_error (filter is_terminal ys) @ [Notify m Error]"
    unfolding assms by simp
  finally show ?thesis by (simp only: errors_of_terminal)
qed

lemma loop_returned:
  "fst (retry_loop undisturbed cfg ev pl format n st a le w) = Returned \<Longrightarrow>
   \<exists>i. a \<le> i \<and> i \<le> RETRY_ATTEMPTS cfg \<and> succeeds (responses ev i)"
proof (induction "Suc (RETRY_ATTEMPTS cfg) - a" arbitrary: a le w)
  case 0
  then have "\<not> a \<le> RETRY_ATTEMPTS cfg" by simp
  with "0.prems" show ?case by (subst (asm) retry_loop.simps) simp
next
  case (Suc d)
  then have le: "a \<le> RETRY_ATTEMPTS cfg" by simp
  obtain r w1 where at: "attempt_try undisturbed cfg ev pl format n st a w = (r, w1)"
    by (cases "attempt_try undisturbed cfg ev pl format n st a w")
  note fx = attempt_try_cases [OF at]
  show ?case
  proof (cases r)
    case (Inr u)
    with fx le show ?thesis by auto
  next
    case (Inl err)
    show ?thesis
    proof (cases "err_name err = js ''AbortError'' \<or> a = RETRY_ATTEMPTS cfg")
      case True
      with Inl at le have "fst (retry_loop undisturbed cfg ev pl format n st a le w) \<noteq> Returned"
        by (subst retry_loop.simps) auto
      with Suc.prems show ?thesis by simp
    next
      case False
      define w3 where "w3 = sleep undisturbed (2 ^ a * 1000)
             (showNotification ([0x23F3] @ js '' Retrying in '' @
                show_thousandths (2 ^ a * 1000) @ js '' seconds...'') Info w1)"
      have step: "retry_loop undisturbed cfg ev pl format n st a le w =
                  retry_loop undisturbed cfg ev pl format n st (Suc a) (Some err) w3"
        using False Inl at le by (subst retry_loop.simps) (simp add: Let_def w3_def)
      have "d = Suc (RETRY_ATTEMPTS cfg) - Suc a" using Suc.hyps(2) by simp
      from Suc.hyps(1) [OF this, of "Some err" w3] Suc.prems step
      obtain i where "Suc a \<le> i" "i \<le> RETRY_ATTEMPTS cfg" "succeeds (responses ev i)"
        by auto
      then show ?thesis by (intro exI [of _ i]) simp
    qed
  qed
qed

lemma locked_run_outcome:
  "\<exists>m t. (t = Success \<or> t = Error) \<and>
     filter is_terminal
       (trace (locked_run undisturbed cfg ev format customPrompt t0 st present
          (w\<lparr>state := (state w)\<lparr>isProcessing := True\<rparr>\<rparr>))) =
     filter is_terminal (trace w) @ [Notify m t] \<and>
     (t = Success \<longrightarrow> (\<exists>i. 1 \<le> i \<and> i \<le> RETRY_ATTEMPTS cfg \<and> succeeds (responses ev i)))"
proof -
  define w2 where "w2 = update_button present
      (\<lambda>b. b\<lparr>innerHTML := [0xD83D, 0xDD04] @ js '' Processing...'',
             disabled := True, opacity := js ''0.6''\<rparr>)
      (w\<lparr>state := (state w)\<lparr>isProcessing := True\<rparr>\<rparr>)"
  obtain tv w0 where tok: "ensureValidToken undisturbed cfg ev w2 = (tv, w0)"
    by (cases "ensureValidToken undisturbed cfg ev w2")
  have t0: "filter is_terminal (trace w0) = filter is_terminal (trace w)"
    using ensureValidToken_cases [OF tok] by (simp add: w2_def)
  define pl where "pl = build_payload cfg t0 format customPrompt w0"
  obtain x wl where lp: "retry_loop undisturbed cfg ev pl format (length t0) st 1 None w0 = (x, wl)"
    by (cases "retry_loop undisturbed cfg ev pl format (length t0) st 1 None w0")
  from loop_effect [of cfg ev pl format "length t0" st 1 None w0] lp t0
  obtain m where tl: "filter is_terminal (trace wl) =
      filter is_terminal (trace w) @ (if x = Returned then [Notify m Success] else [])"
    by auto
  have ret: "x = Returned \<Longrightarrow> \<exists>i. 1 \<le> i \<and> i \<le> RETRY_ATTEMPTS cfg \<and> succeeds (responses ev i)"
    using loop_returned [of cfg ev pl format "length t0" st 1 None w0] lp by simp
  obtain r wr where pt: "pipeline_try undisturbed cfg ev format customPrompt t0 st w2 = (r, wr)"
    by (cases "pipeline_try undisturbed cfg ev format customPrompt t0 st w2")
  show ?thesis
  proof (cases r)
    case (Inr u)
    with pt tok lp have "x = Returned" "wr = wl"
      by (auto simp: pipeline_try_def pl_def split: if_splits loop_exit.splits)
    with Inr pt tl have "filter is_terminal
       (trace (locked_run undisturbed cfg ev format customPrompt t0 st present
          (w\<lparr>state := (state w)\<lparr>isProcessing := True\<rparr>\<rparr>))) =
       filter is_terminal (trace w) @ [Notify m Success]"
      unfolding w2_def by (simp add: locked_run_def Let_def)
    with ret [OF \<open>x = Returned\<close>] show ?thesis by blast
  next
    case (Inl err)
    with pt tok lp t0 tl have "filter is_terminal (trace wr) = filter is_terminal (trace w)"
      by (auto simp: pipeline_try_def pl_def split: if_splits loop_exit.splits)
    with Inl pt have "filter is_terminal
       (trace (locked_run undisturbed cfg ev format customPrompt t0 st present
          (w\<lparr>state := (state w)\<lparr>isProcessing := True\<rparr>\<rparr>))) =
       filter is_terminal (trace w) @ [Notify (user_message err) Error]"
      unfolding w2_def by (simp add: locked_run_def Let_def term_on_failure)
    then show ?thesis by blast
  qed
qed

lemma accepted_run:
  assumes "accepted cfg w"
    and "\<not> throws (find_button ev element (resolved_format element format0))"
  shows "\<exists>present. processWithAI meanwhile cfg ev element format0 customPrompt w =
           (Resolved,
            locked_run meanwhile cfg ev (resolved_format element format0) customPrompt
              (trimmed_input w) (now w) present (w\<lparr>state := (state w)\<lparr>isProcessing := True\<rparr>\<rparr>))"
  using assms
  by (cases "find_button ev element (resolved_format element format0)")
     (auto simp: processWithAI_def Let_def accepted_def)

subsection \<open>The claims about the pipeline\<close>

text \<open>
  C1, as the code has it.  In every run of \<open>processWithAI\<close> that reaches the retry loop and
  in which the first \<open>k - 1\<close> attempts fail with an error other than a timeout (a response that
  is not 2xx, a network failure, a malformed body: what the loop does retry) and attempt \<open>k\<close>
  succeeds, with \<open>k \<le> RETRY_ATTEMPTS\<close>, exactly \<open>min k RETRY_ATTEMPTS\<close> requests are issued, all
  with the same payload, and the suspension between attempt \<open>n\<close> and attempt \<open>n + 1\<close> is
  \<open>2 ^ n * 1000\<close> ms: the requests and suspensions of the run are exactly \<open>schedule pl 1 k\<close>.
\<close>

theorem retry_until_success:
  assumes "reaches_loop cfg ev element format0 w"
    and "1 \<le> k" and "k \<le> RETRY_ATTEMPTS cfg"
    and "\<forall>i. 1 \<le> i \<and> i < k \<longrightarrow> fails_retryably (responses ev i)"
    and "succeeds (responses ev k)"
  shows "\<exists>pl. p_text pl = trimmed_input w \<and>
           filter is_network (trace (snd (processWithAI undisturbed cfg ev element format0 customPrompt w))) =
             filter is_network (trace w) @ schedule pl 1 k \<and>
           length (filter is_request (trace (snd (processWithAI undisturbed cfg ev element format0 customPrompt w)))) =
             length (filter is_request (trace w)) + min k (RETRY_ATTEMPTS cfg)"
proof -
  from accepted_call [OF assms(1), of customPrompt] obtain pl w0
    where pl: "p_text pl = trimmed_input w"
      and n0: "filter is_network (trace w0) = filter is_network (trace w)"
      and nr: "filter is_network (trace (snd (processWithAI undisturbed cfg ev element format0 customPrompt w))) =
               filter is_network (trace (snd (retry_loop undisturbed cfg ev pl (resolved_format element format0)
                 (length (trimmed_input w)) (now w) 1 None w0)))"
    by blast
  from loop_run_success [OF assms(2-5), of pl "resolved_format element format0"
      "length (trimmed_input w)" "now w" None w0]
  have "filter is_network (trace (snd (retry_loop undisturbed cfg ev pl (resolved_format element format0)
          (length (trimmed_input w)) (now w) 1 None w0))) =
        filter is_network (trace w0) @ schedule pl 1 k"
    by auto
  with nr n0 have net: "filter is_network (trace (snd (processWithAI undisturbed cfg ev element format0 customPrompt w))) =
      filter is_network (trace w) @ schedule pl 1 k"
    by simp
  have "length (filter is_request (trace (snd (processWithAI undisturbed cfg ev element format0 customPrompt w)))) =
        length (filter is_request (filter is_network (trace w) @ schedule pl 1 k))"
    using net requests_of_network [of "trace (snd (processWithAI undisturbed cfg ev element format0 customPrompt w))"]
    by simp
  also have "\<dots> = length (filter is_request (trace w)) + k"
    using assms(2) requests_of_network [of "trace w"] by (simp add: requests_schedule)
  finally show ?thesis using pl net assms(3) by (auto simp: min_def)
qed

theorem retry_until_success_witness:
  "reaches_loop CONFIG (scenario [http_500] (well_formed (js ''Done''))) NullArg
     (js ''tutorial'') (idle_world (js ''Hello'')) \<and>
   (\<exists>pl. p_text pl = js ''Hello'' \<and>
      filter is_network
        (trace (snd (processWithAI undisturbed CONFIG (scenario [http_500] (well_formed (js ''Done''))) NullArg
                  (js ''tutorial'') None (idle_world (js ''Hello''))))) =
        [Request pl, Sleep 2000, Request pl] \<and>
      length (filter is_request
        (trace (snd (processWithAI undisturbed CONFIG (scenario [http_500] (well_formed (js ''Done''))) NullArg
                  (js ''tutorial'') None (idle_world (js ''Hello'')))))) = 2)"
proof -
  let ?ev = "scenario [http_500] (well_formed (js ''Done''))"
  let ?w = "idle_world (js ''Hello'')"
  have r: "reaches_loop CONFIG ?ev NullArg (js ''tutorial'') ?w"
    by (simp add: run_defs)
  have k: "(1::nat) \<le> 2" "2 \<le> RETRY_ATTEMPTS CONFIG"
    by (simp_all add: CONFIG_def)
  have f: "\<forall>i. 1 \<le> i \<and> i < 2 \<longrightarrow> fails_retryably (responses ?ev i)"
  proof (intro allI impI)
    fix i :: nat
    assume "1 \<le> i \<and> i < 2"
    then have "i = 1" by simp
    then show "fails_retryably (responses ?ev i)"
      by (simp add: fails_retryably_def run_defs)
  qed
  have s: "succeeds (responses ?ev 2)"
    by (simp add: succeeds_def run_defs)
  have t: "trimmed_input ?w = js ''Hello''"
    by (simp add: run_defs)
  have sch: "schedule pl 1 2 = [Request pl, Sleep 2000, Request pl]" for pl
    by (simp add: schedule_def numeral_2_eq_2)
  have m: "min 2 (RETRY_ATTEMPTS CONFIG) = 2"
    by (simp add: CONFIG_def)
  have e: "trace ?w = []"
    by (simp add: idle_world_def)
  from retry_until_success [OF r k f s, of None] r
  show ?thesis
    unfolding t sch m e by auto
qed

text \<open>
  The claim as stated counts a timeout among the failures that are retried.  With the first
  attempt answered by HTTP 500, the second aborted by the timer and a third that would
  succeed (\<open>k = 3\<close>, three attempts allowed), the run sends two requests, not three: the
  timeout ends it.
\<close>

theorem timeout_before_success_counterexample:
  "RETRY_ATTEMPTS CONFIG = 3 \<and>
   fails_retryably (responses (scenario [http_500, timed_out] (well_formed (js ''Done''))) 1) \<and>
   times_out (responses (scenario [http_500, timed_out] (well_formed (js ''Done''))) 2) \<and>
   succeeds (responses (scenario [http_500, timed_out] (well_formed (js ''Done''))) 3) \<and>
   filter is_network
     (trace (snd (processWithAI undisturbed CONFIG
        (scenario [http_500, timed_out] (well_formed (js ''Done''))) NullArg
        (js ''tutorial'') None (idle_world (js ''Hello''))))) =
   [Request (build_payload CONFIG (js ''Hello'') (js ''tutorial'') None
               (idle_world (js ''Hello''))),
    Sleep 2000,
    Request (build_payload CONFIG (js ''Hello'') (js ''tutorial'') None
               (idle_world (js ''Hello'')))]"
  by (simp add: succeeds_def fails_retryably_def times_out_def run_defs)

text \<open>
  C2, as the code has it.  A timeout is not retried.  When attempt \<open>j\<close> is aborted by the
  timer, whatever the number of attempts left, the run ends there: the requests and
  suspensions are those up to the request of attempt \<open>j\<close>, with no backoff and no attempt after
  it, and the failure is reported once, with the message reserved for timeouts.
\<close>

theorem timeout_ends_the_run:
  assumes "reaches_loop cfg ev element format0 w"
    and "1 \<le> j" and "j \<le> RETRY_ATTEMPTS cfg"
    and "\<forall>i. 1 \<le> i \<and> i < j \<longrightarrow> fails_retryably (responses ev i)"
    and "times_out (responses ev j)"
  shows "\<exists>pl. p_text pl = trimmed_input w \<and>
           filter is_network (trace (snd (processWithAI undisturbed cfg ev element format0 customPrompt w))) =
             filter is_network (trace w) @ schedule pl 1 j \<and>
           filter is_terminal (trace (snd (processWithAI undisturbed cfg ev element format0 customPrompt w))) =
             filter is_terminal (trace w) @
             [Notify ([0x274C] @ js '' Processing failed: Request timed out. The service may be busy, please try again.'') Error]"
proof -
  from accepted_call [OF assms(1), of customPrompt] obtain pl w0
    where pl: "p_text pl = trimmed_input w"
      and n0: "filter is_network (trace w0) = filter is_network (trace w)"
      and t0: "filter is_terminal (trace w0) = filter is_terminal (trace w)"
      and nr: "filter is_network (trace (snd (processWithAI undisturbed cfg ev element format0 customPrompt w))) =
               filter is_network (trace (snd (retry_loop undisturbed cfg ev pl (resolved_format element format0)
                 (length (trimmed_input w)) (now w) 1 None w0)))"
      and tr: "filter is_terminal (trace (snd (processWithAI undisturbed cfg ev element format0 customPrompt w))) =
             filter is_terminal (trace (snd (retry_loop undisturbed cfg ev pl (resolved_format element format0)
                (length (trimmed_input w)) (now w) 1 None w0))) @
             (case fst (retry_loop undisturbed cfg ev pl (resolved_format element format0)
                (length (trimmed_input w)) (now w) 1 None w0) of
                Returned \<Rightarrow> []
              | Thrown err \<Rightarrow> [Notify (user_message err) Error]
              | FellThrough lastErr \<Rightarrow>
                  [Notify (user_message (case lastErr of Some err \<Rightarrow> err
                      | None \<Rightarrow> new_Error (js ''All retry attempts failed''))) Error])"
    by blast
  from loop_run_timeout [OF assms(2-5), of pl "resolved_format element format0"
      "length (trimmed_input w)" "now w" None w0]
  obtain wl where "retry_loop undisturbed cfg ev pl (resolved_format element format0)
          (length (trimmed_input w)) (now w) 1 None w0 =
          (Thrown (new_Error (js ''Processing timeout after '' @
                        show_thousandths (TIMEOUT_MS cfg) @ js '' seconds'')), wl)"
    and "filter is_network (trace wl) = filter is_network (trace w0) @ schedule pl 1 j"
    and "filter is_terminal (trace wl) = filter is_terminal (trace w0)"
    by blast
  with nr tr n0 t0 pl show ?thesis
    by (intro exI [of _ pl]) (simp add: timeout_message)
qed

theorem timeout_ends_the_run_witness:
  "times_out (responses (scenario [http_500, timed_out] (well_formed (js ''Done''))) 2) \<and>
   (\<exists>pl. p_text pl = js ''Hello'' \<and>
      filter is_network
        (trace (snd (processWithAI undisturbed CONFIG (scenario [http_500, timed_out] (well_formed (js ''Done'')))
                  NullArg (js ''tutorial'') None (idle_world (js ''Hello''))))) =
        [Request pl, Sleep 2000, Request pl] \<and>
      filter is_terminal
        (trace (snd (processWithAI undisturbed CONFIG (scenario [http_500, timed_out] (well_formed (js ''Done'')))
                  NullArg (js ''tutorial'') None (idle_world (js ''Hello''))))) =
        [Notify ([0x274C] @ js '' Processing failed: Request timed out. The service may be busy, please try again.'') Error])"
proof -
  let ?ev = "scenario [http_500, timed_out] (well_formed (js ''Done''))"
  let ?w = "idle_world (js ''Hello'')"
  have r: "reaches_loop CONFIG ?ev NullArg (js ''tutorial'') ?w"
    by (simp add: run_defs)
  have k: "(1::nat) \<le> 2" "2 \<le> RETRY_ATTEMPTS CONFIG"
    by (simp_all add: CONFIG_def)
  have f: "\<forall>i. 1 \<le> i \<and> i < 2 \<longrightarrow> fails_retryably (responses ?ev i)"
  proof (intro allI impI)
    fix i :: nat
    assume "1 \<le> i \<and> i < 2"
    then have "i = 1" by simp
    then show "fails_retryably (responses ?ev i)"
      by (simp add: fails_retryably_def run_defs)
  qed
  have s: "times_out (responses ?ev 2)"
    by (simp add: times_out_def run_defs)
  have t: "trimmed_input ?w = js ''Hello''"
    by (simp add: run_defs)
  have sch: "schedule pl 1 2 = [Request pl, Sleep 2000, Request pl]" for pl
    by (simp add: schedule_def numeral_2_eq_2)
  have e: "trace ?w = []"
    by (simp add: idle_world_def)
  from timeout_ends_the_run [OF r k f s, of None] s
  show ?thesis
    unfolding t sch e by auto
qed

text \<open>
  The claim as stated, that a timed-out attempt with attempts left is followed by a backoff
  and another attempt, fails: with three attempts allowed and a timeout on the first, one
  request is sent and nothing more.
\<close>

theorem timeout_is_not_retried_counterexample:
  "RETRY_ATTEMPTS CONFIG = 3 \<and>
   times_out (responses (scenario [timed_out] (well_formed (js ''Done''))) 1) \<and>
   filter is_network
     (trace (snd (processWithAI undisturbed CONFIG (scenario [timed_out] (well_formed (js ''Done''))) NullArg
               (js ''tutorial'') None (idle_world (js ''Hello''))))) =
   [Request (build_payload CONFIG (js ''Hello'') (js ''tutorial'') None
               (idle_world (js ''Hello'')))]"
  by (simp add: times_out_def run_defs)

text \<open>
  C3, as the code has it.  A 2xx response whose body lacks the expected fields is a failure
  like any other: when it answers attempt \<open>j\<close> and attempts remain, the loop waits
  \<open>2 ^ j * 1000\<close> ms and issues attempt \<open>j + 1\<close>.
\<close>

theorem malformed_success_is_retried:
  assumes "reaches_loop cfg ev element format0 w"
    and "1 \<le> j" and "j < RETRY_ATTEMPTS cfg"
    and "\<forall>i. 1 \<le> i \<and> i < j \<longrightarrow> fails_retryably (responses ev i)"
    and "malformed_success (responses ev j)"
  shows "\<exists>pl rest. p_text pl = trimmed_input w \<and>
           filter is_network (trace (snd (processWithAI undisturbed cfg ev element format0 customPrompt w))) =
             filter is_network (trace w) @ schedule pl 1 j @
             [Sleep (2 ^ j * 1000), Request pl] @ rest"
proof -
  from accepted_call [OF assms(1), of customPrompt] obtain pl w0
    where pl: "p_text pl = trimmed_input w"
      and n0: "filter is_network (trace w0) = filter is_network (trace w)"
      and nr: "filter is_network (trace (snd (processWithAI undisturbed cfg ev element format0 customPrompt w))) =
               filter is_network (trace (snd (retry_loop undisturbed cfg ev pl (resolved_format element format0)
                 (length (trimmed_input w)) (now w) 1 None w0)))"
    by blast
  have "\<forall>i. 1 \<le> i \<and> i \<le> j \<longrightarrow> fails_retryably (responses ev i)"
    using assms(4,5) malformed_is_retryable by (metis le_neq_implies_less)
  from loop_run_retried [OF assms(2,3) this, of pl "resolved_format element format0"
      "length (trimmed_input w)" "now w" None w0]
  obtain rest where "filter is_network (trace (snd (retry_loop undisturbed cfg ev pl
          (resolved_format element format0) (length (trimmed_input w)) (now w) 1 None w0))) =
        filter is_network (trace w0) @ schedule pl 1 (Suc j) @ rest"
    by blast
  moreover have "schedule pl 1 (Suc j) = schedule pl 1 j @ [Sleep (2 ^ j * 1000), Request pl]"
    using assms(2) by (simp add: schedule_def)
  ultimately show ?thesis using nr n0 pl by auto
qed

theorem malformed_success_is_retried_witness:
  "malformed_success (responses (scenario [missing_text] (well_formed (js ''Done''))) 1) \<and>
   (\<exists>pl rest. p_text pl = js ''Hello'' \<and>
      filter is_network
        (trace (snd (processWithAI undisturbed CONFIG (scenario [missing_text] (well_formed (js ''Done'')))
                  NullArg (js ''tutorial'') None (idle_world (js ''Hello''))))) =
        [Request pl, Sleep 2000, Request pl] @ rest)"
proof -
  let ?ev = "scenario [missing_text] (well_formed (js ''Done''))"
  let ?w = "idle_world (js ''Hello'')"
  have r: "reaches_loop CONFIG ?ev NullArg (js ''tutorial'') ?w"
    by (simp add: run_defs)
  have k: "(1::nat) \<le> 1" "1 < RETRY_ATTEMPTS CONFIG"
    by (simp_all add: CONFIG_def)
  have f: "\<forall>i. 1 \<le> i \<and> i < 1 \<longrightarrow> fails_retryably (responses ?ev i)"
    by simp
  have s: "malformed_success (responses ?ev 1)"
    by (simp add: malformed_success_def run_defs)
  have t: "trimmed_input ?w = js ''Hello''"
    by (simp add: run_defs)
  have sch: "schedule pl 1 1 = [Request pl]" for pl
    by (simp add: schedule_def)
  have e: "trace ?w = []"
    by (simp add: idle_world_def)
  from malformed_success_is_retried [OF r k f s, of None] s
  show ?thesis
    unfolding t sch e by auto
qed

text \<open>
  The claim as stated, that no further attempt follows such a response, fails: a first answer
  without \<open>processedText\<close> is followed by a backoff of 2000 ms and a second request.
\<close>

theorem malformed_success_counterexample:
  "malformed_success (responses (scenario [missing_text] (well_formed (js ''Done''))) 1) \<and>
   filter is_network
     (trace (snd (processWithAI undisturbed CONFIG (scenario [missing_text] (well_formed (js ''Done''))) NullArg
               (js ''tutorial'') None (idle_world (js ''Hello''))))) =
   [Request (build_payload CONFIG (js ''Hello'') (js ''tutorial'') None
               (idle_world (js ''Hello''))),
    Sleep 2000,
    Request (build_payload CONFIG (js ''Hello'') (js ''tutorial'') None
               (idle_world (js ''Hello'')))]"
  by (simp add: malformed_success_def run_defs)

text \<open>
  C4.  When the trimmed text is empty, or longer than \<open>MAX_TEXT_LENGTH\<close>, the call does nothing
  but show one warning: it returns normally, and the world it leaves is the one it got with
  that notification added.  So no request is sent, no token refresh either, and \<open>editorState\<close>,
  with \<open>isProcessing\<close>, is untouched.
\<close>

theorem invalid_input_rejected:
  assumes "trimmed_input w = [] \<or> length (trimmed_input w) > MAX_TEXT_LENGTH cfg"
  shows "\<exists>m. processWithAI undisturbed cfg ev element format0 customPrompt w =
               (Resolved, showNotification m Warning w) \<and>
             trace (snd (processWithAI undisturbed cfg ev element format0 customPrompt w)) =
               trace w @ [Notify m Warning] \<and>
             state (snd (processWithAI undisturbed cfg ev element format0 customPrompt w)) =
               state w"
  using assms by (auto simp: processWithAI_def Let_def showNotification_def emit_def)

theorem invalid_input_rejected_witness:
  "trimmed_input (idle_world (js ''   '')) = [] \<and>
   processWithAI undisturbed CONFIG (scenario [] http_500) NullArg (js ''tutorial'') None
     (idle_world (js ''   '')) =
   (Resolved,
    showNotification ([0xD83D, 0xDCDD] @ js '' Please enter some text to process first'') Warning
      (idle_world (js ''   '')))"
proof -
  have h: "trimmed_input (idle_world (js ''   '')) = []"
    by (simp add: run_defs)
  from invalid_input_rejected [of "idle_world (js ''   '')" CONFIG "scenario [] http_500"
      NullArg "js ''tutorial''" None] h
  obtain m where "processWithAI undisturbed CONFIG (scenario [] http_500) NullArg (js ''tutorial'')
      None (idle_world (js ''   '')) = (Resolved, showNotification m Warning (idle_world (js ''   '')))"
    and "trace (snd (processWithAI undisturbed CONFIG (scenario [] http_500) NullArg
      (js ''tutorial'') None (idle_world (js ''   '')))) =
      trace (idle_world (js ''   '')) @ [Notify m Warning]"
    by blast
  moreover have "trace (snd (processWithAI undisturbed CONFIG (scenario [] http_500) NullArg
      (js ''tutorial'') None (idle_world (js ''   '')))) =
     trace (idle_world (js ''   '')) @
     [Notify ([0xD83D, 0xDCDD] @ js '' Please enter some text to process first'') Warning]"
    using h by (simp add: processWithAI_def Let_def showNotification_def emit_def)
  ultimately show ?thesis using h by simp
qed

text \<open>
  C5, as the code has it.  A call made while \<open>isProcessing\<close> is set does nothing but show one
  notification: no request, nothing queued, \<open>editorState\<close> and everything else as before.
  The notification is the busy message when the text passes validation; validation comes
  first, so a text that fails it gets the validation warning instead.  This holds at whatever
  point of another call the new call arrives.  And a call that is accepted holds the flag for
  as long as it runs: let the processing be triggered again at every suspension of the call
  (each \<open>fetch\<close>, each reading of a body, each backoff, the token refresh), with any arguments,
  configuration and environment of its own; then every request sent between the entry of the
  call and its end carries the payload of the call itself, built from the text it read on
  entry.  So at most one request payload is in flight at any time.
\<close>

theorem call_while_busy:
  "(isProcessing (state w) \<longrightarrow>
      (\<exists>m t. processWithAI meanwhile cfg ev element format0 customPrompt w =
                (Resolved, showNotification m t w) \<and>
              (t = Warning \<or> t = Info) \<and>
              (trimmed_input w \<noteq> [] \<and> length (trimmed_input w) \<le> MAX_TEXT_LENGTH cfg \<longrightarrow>
                 t = Info \<and>
                 m = [0x23F3] @ js '' Please wait for current processing to complete''))) \<and>
   (\<exists>pl E. p_text pl = trimmed_input w \<and>
      filter is_network
        (trace (snd (processWithAI (second_call cfg2 ev2 element2 format2 customPrompt2)
                       cfg ev element format0 customPrompt w))) =
      filter is_network (trace w) @ E \<and>
      (\<forall>e\<in>set E. is_request e \<longrightarrow> e = Request pl))"
proof
  show "isProcessing (state w) \<longrightarrow>
      (\<exists>m t. processWithAI meanwhile cfg ev element format0 customPrompt w =
                (Resolved, showNotification m t w) \<and>
              (t = Warning \<or> t = Info) \<and>
              (trimmed_input w \<noteq> [] \<and> length (trimmed_input w) \<le> MAX_TEXT_LENGTH cfg \<longrightarrow>
                 t = Info \<and>
                 m = [0x23F3] @ js '' Please wait for current processing to complete''))"
    using rejected_while_busy by blast
next
  let ?m = "second_call cfg2 ev2 element2 format2 customPrompt2"
  let ?R = "processWithAI ?m cfg ev element format0 customPrompt w"
  have H: "\<And>x. isProcessing (state x) \<Longrightarrow>
      isProcessing (state (?m x)) \<and> filter is_network (trace (?m x)) = filter is_network (trace x)"
    by (rule second_call_held)
  define pl0 where "pl0 = build_payload cfg (trimmed_input w) (resolved_format element format0)
      customPrompt w"
  have pl0: "p_text pl0 = trimmed_input w" by (simp add: pl0_def build_payload_def)
  show "\<exists>pl E. p_text pl = trimmed_input w \<and>
      filter is_network (trace (snd ?R)) = filter is_network (trace w) @ E \<and>
      (\<forall>e\<in>set E. is_request e \<longrightarrow> e = Request pl)"
  proof (cases "accepted cfg w \<and>
      \<not> throws (find_button ev element (resolved_format element format0))")
    case False
    then have "filter is_network (trace (snd ?R)) = filter is_network (trace w) @ []"
      by (cases "find_button ev element (resolved_format element format0)")
         (auto simp: processWithAI_def Let_def accepted_def)
    with pl0 show ?thesis by (intro exI [of _ pl0] exI [of _ "[]"]) simp
  next
    case True
    then obtain present where "snd ?R =
        locked_run ?m cfg ev (resolved_format element format0) customPrompt (trimmed_input w)
          (now w) present (w\<lparr>state := (state w)\<lparr>isProcessing := True\<rparr>\<rparr>)"
      by (cases "find_button ev element (resolved_format element format0)")
         (auto simp: processWithAI_def Let_def accepted_def)
    with locked_run_held [of ?m, OF H, of "trimmed_input w" cfg ev
        "resolved_format element format0" customPrompt "now w" present w]
    show ?thesis by simp
  qed
qed

theorem call_while_busy_witness:
  "isProcessing (state (busy_world (js ''Hello''))) \<and>
   processWithAI undisturbed CONFIG (scenario [] http_500) NullArg (js ''tutorial'') None
     (busy_world (js ''Hello'')) =
   (Resolved,
    showNotification ([0x23F3] @ js '' Please wait for current processing to complete'') Info
      (busy_world (js ''Hello''))) \<and>
   (\<exists>pl. p_text pl = js ''Hello'' \<and> p_format pl = js ''tutorial'' \<and>
      filter is_network
        (trace (snd (processWithAI
            (second_call CONFIG (scenario [] (well_formed (js ''Other''))) NullArg (js ''readme'')
               None)
            CONFIG (scenario [] (well_formed (js ''Done''))) NullArg (js ''tutorial'') None
            (idle_world (js ''Hello''))))) =
      [Request pl])"
proof -
  let ?m = "second_call CONFIG (scenario [] (well_formed (js ''Other''))) NullArg (js ''readme'') None"
  let ?ev = "scenario [] (well_formed (js ''Done''))"
  let ?pl = "build_payload CONFIG (js ''Hello'') (js ''tutorial'') None (idle_world (js ''Hello''))"
  have b: "isProcessing (state (busy_world (js ''Hello'')))"
    by (simp add: busy_world_def)
  have v: "trimmed_input (busy_world (js ''Hello'')) \<noteq> [] \<and>
           length (trimmed_input (busy_world (js ''Hello''))) \<le> MAX_TEXT_LENGTH CONFIG"
    by (simp add: run_defs)
  from call_while_busy [of "busy_world (js ''Hello'')" undisturbed CONFIG "scenario [] http_500"
      NullArg "js ''tutorial''" None] v b
  have one: "processWithAI undisturbed CONFIG (scenario [] http_500) NullArg (js ''tutorial'') None
     (busy_world (js ''Hello'')) =
   (Resolved,
    showNotification ([0x23F3] @ js '' Please wait for current processing to complete'') Info
      (busy_world (js ''Hello'')))"
    by auto
  have run: "filter is_network
        (trace (snd (processWithAI ?m CONFIG ?ev NullArg (js ''tutorial'') None
            (idle_world (js ''Hello''))))) = [Request ?pl]"
    by (simp add: second_call_def run_defs)
  have t: "trimmed_input (idle_world (js ''Hello'')) = js ''Hello''"
    by (simp add: run_defs)
  have e: "trace (idle_world (js ''Hello'')) = []"
    by (simp add: idle_world_def)
  from call_while_busy [of "idle_world (js ''Hello'')" undisturbed CONFIG ?ev NullArg
      "js ''tutorial''" None CONFIG "scenario [] (well_formed (js ''Other''))" NullArg
      "js ''readme''" None]
  have "\<exists>pl E. p_text pl = trimmed_input (idle_world (js ''Hello'')) \<and>
      filter is_network
        (trace (snd (processWithAI ?m CONFIG ?ev NullArg (js ''tutorial'') None
            (idle_world (js ''Hello''))))) =
      filter is_network (trace (idle_world (js ''Hello''))) @ E \<and>
      (\<forall>e\<in>set E. is_request e \<longrightarrow> e = Request pl)"
    by (rule conjunct2)
  then obtain pl E where p: "p_text pl = js ''Hello''"
    and "filter is_network
        (trace (snd (processWithAI ?m CONFIG ?ev NullArg (js ''tutorial'') None
            (idle_world (js ''Hello''))))) = E"
    and "\<forall>e\<in>set E. is_request e \<longrightarrow> e = Request pl"
    unfolding t e by auto
  with run have "pl = ?pl" by auto
  with p have "p_text ?pl = js ''Hello''"
    by simp
  moreover have "p_format ?pl = js ''tutorial''"
    by (simp add: build_payload_def)
  ultimately show ?thesis using run one b by blast
qed

text \<open>
  The claim as stated, that every call made while the flag is set is answered with the busy
  rejection, fails for a call on an empty editor: it is answered with the validation warning.
\<close>

theorem busy_call_with_empty_text_counterexample:
  "isProcessing (state (busy_world [])) \<and>
   processWithAI undisturbed CONFIG (scenario [] http_500) NullArg (js ''tutorial'') None
     (busy_world []) =
   (Resolved,
    showNotification ([0xD83D, 0xDCDD] @ js '' Please enter some text to process first'') Warning
      (busy_world [])) \<and>
   processWithAI undisturbed CONFIG (scenario [] http_500) NullArg (js ''tutorial'') None
     (busy_world []) \<noteq>
   (Resolved,
    showNotification ([0x23F3] @ js '' Please wait for current processing to complete'') Info
      (busy_world []))"
  by (simp add: processWithAI_def Let_def trimmed_input_def trim_def busy_world_def
        showNotification_def emit_def)

text \<open>
  C6, as the code has it.  A call whose lookup of the button does not throw returns normally,
  and when it terminates \<open>isProcessing\<close> has the value it had before the call.  So the flag is
  false after every accepted call, whether it ends in success or in failure, with or without
  fallback: the \<open>finally\<close> block clears it.  A validation error returns before the flag is read
  or written: the flag is then false exactly when no other call holds it, and the warning is
  all the caller gets.  An accepted call ends in one of two ways.  Either exactly one
  notification that is not merely informative is shown, the success one, and some attempt was
  answered well.  Or exactly one error notification is shown; with the fallback disabled it is
  the only notification that is not merely informative, and with the fallback enabled the
  local formatter runs after it.  The first case is the one of a run whose attempt \<open>k\<close>
  succeeds after \<open>k - 1\<close> failures that are retried.
\<close>

theorem flag_restored_one_outcome:
  "(\<not> throws (find_button ev element (resolved_format element format0)) \<longrightarrow>
      fst (processWithAI undisturbed cfg ev element format0 customPrompt w) = Resolved \<and>
      isProcessing (state (snd (processWithAI undisturbed cfg ev element format0 customPrompt w))) =
        isProcessing (state w)) \<and>
   (trimmed_input w = [] \<or> length (trimmed_input w) > MAX_TEXT_LENGTH cfg \<longrightarrow>
      (\<exists>m. processWithAI undisturbed cfg ev element format0 customPrompt w =
              (Resolved, showNotification m Warning w))) \<and>
   (accepted cfg w \<and> \<not> throws (find_button ev element (resolved_format element format0)) \<longrightarrow>
      \<not> isProcessing (state (snd (processWithAI undisturbed cfg ev element format0 customPrompt w))) \<and>
      ((\<exists>m. filter is_terminal
               (trace (snd (processWithAI undisturbed cfg ev element format0 customPrompt w))) =
             filter is_terminal (trace w) @ [Notify m Success]) \<and>
       (\<exists>i. 1 \<le> i \<and> i \<le> RETRY_ATTEMPTS cfg \<and> succeeds (responses ev i)) \<or>
       (\<exists>m. filter is_error
               (trace (snd (processWithAI undisturbed cfg ev element format0 customPrompt w))) =
             filter is_error (trace w) @ [Notify m Error] \<and>
             (ENABLE_LOCAL_FALLBACK cfg = Some False \<longrightarrow>
                filter is_terminal
                  (trace (snd (processWithAI undisturbed cfg ev element format0 customPrompt w))) =
                filter is_terminal (trace w) @ [Notify m Error])))) \<and>
   (reaches_loop cfg ev element format0 w \<and> 1 \<le> k \<and> k \<le> RETRY_ATTEMPTS cfg \<and>
    (\<forall>i. 1 \<le> i \<and> i < k \<longrightarrow> fails_retryably (responses ev i)) \<and> succeeds (responses ev k) \<longrightarrow>
      (\<exists>m. filter is_terminal
              (trace (snd (processWithAI undisturbed cfg ev element format0 customPrompt w))) =
            filter is_terminal (trace w) @ [Notify m Success]))"
proof (intro conjI impI)
  assume "\<not> throws (find_button ev element (resolved_format element format0))"
  then show "fst (processWithAI undisturbed cfg ev element format0 customPrompt w) = Resolved"
    by (cases "find_button ev element (resolved_format element format0)")
       (auto simp: processWithAI_def Let_def)
next
  assume "\<not> throws (find_button ev element (resolved_format element format0))"
  then show "isProcessing (state (snd (processWithAI undisturbed cfg ev element format0
      customPrompt w))) = isProcessing (state w)"
    by (cases "find_button ev element (resolved_format element format0)")
       (auto simp: processWithAI_def Let_def)
next
  assume "trimmed_input w = [] \<or> length (trimmed_input w) > MAX_TEXT_LENGTH cfg"
  then show "\<exists>m. processWithAI undisturbed cfg ev element format0 customPrompt w =
              (Resolved, showNotification m Warning w)"
    by (auto simp: processWithAI_def Let_def)
next
  assume a: "accepted cfg w \<and>
      \<not> throws (find_button ev element (resolved_format element format0))"
  with accepted_run [of cfg w ev element format0 undisturbed customPrompt]
  show "\<not> isProcessing (state (snd (processWithAI undisturbed cfg ev element format0
      customPrompt w)))"
    by auto
next
  assume a: "accepted cfg w \<and>
      \<not> throws (find_button ev element (resolved_format element format0))"
  with accepted_run [of cfg w ev element format0 undisturbed customPrompt]
  obtain present where run:
    "snd (processWithAI undisturbed cfg ev element format0 customPrompt w) =
     locked_run undisturbed cfg ev (resolved_format element format0) customPrompt
       (trimmed_input w) (now w) present (w\<lparr>state := (state w)\<lparr>isProcessing := True\<rparr>\<rparr>)"
    by auto
  from locked_run_outcome [of cfg ev "resolved_format element format0" customPrompt
      "trimmed_input w" "now w" present w]
  obtain m t where t: "t = Success \<or> t = Error"
    and tm: "filter is_terminal
        (trace (snd (processWithAI undisturbed cfg ev element format0 customPrompt w))) =
        filter is_terminal (trace w) @ [Notify m t]"
    and ts: "t = Success \<longrightarrow>
        (\<exists>i. 1 \<le> i \<and> i \<le> RETRY_ATTEMPTS cfg \<and> succeeds (responses ev i))"
    unfolding run by blast
  from t show "(\<exists>m. filter is_terminal
               (trace (snd (processWithAI undisturbed cfg ev element format0 customPrompt w))) =
             filter is_terminal (trace w) @ [Notify m Success]) \<and>
       (\<exists>i. 1 \<le> i \<and> i \<le> RETRY_ATTEMPTS cfg \<and> succeeds (responses ev i)) \<or>
       (\<exists>m. filter is_error
               (trace (snd (processWithAI undisturbed cfg ev element format0 customPrompt w))) =
             filter is_error (trace w) @ [Notify m Error] \<and>
             (ENABLE_LOCAL_FALLBACK cfg = Some False \<longrightarrow>
                filter is_terminal
                  (trace (snd (processWithAI undisturbed cfg ev element format0 customPrompt w))) =
                filter is_terminal (trace w) @ [Notify m Error]))"
  proof
    assume "t = Success"
    with tm ts show ?thesis by blast
  next
    assume e: "t = Error"
    with tm have "filter is_error
        (trace (snd (processWithAI undisturbed cfg ev element format0 customPrompt w))) =
        filter is_error (trace w) @ [Notify m Error]"
      by (intro error_shown) simp
    with tm e show ?thesis by blast
  qed
next
  assume h: "reaches_loop cfg ev element format0 w \<and> 1 \<le> k \<and> k \<le> RETRY_ATTEMPTS cfg \<and>
    (\<forall>i. 1 \<le> i \<and> i < k \<longrightarrow> fails_retryably (responses ev i)) \<and> succeeds (responses ev k)"
  then have r: "reaches_loop cfg ev element format0 w" and k: "1 \<le> k" "k \<le> RETRY_ATTEMPTS cfg"
    and f: "\<forall>i. 1 \<le> i \<and> i < k \<longrightarrow> fails_retryably (responses ev i)"
    and s: "succeeds (responses ev k)"
    by simp_all
  from accepted_call [OF r, of customPrompt] obtain pl w0
    where t0: "filter is_terminal (trace w0) = filter is_terminal (trace w)"
      and tr: "filter is_terminal
          (trace (snd (processWithAI undisturbed cfg ev element format0 customPrompt w))) =
          filter is_terminal (trace (snd (retry_loop undisturbed cfg ev pl
             (resolved_format element format0) (length (trimmed_input w)) (now w) 1 None w0))) @
          (case fst (retry_loop undisturbed cfg ev pl (resolved_format element format0)
             (length (trimmed_input w)) (now w) 1 None w0) of
             Returned \<Rightarrow> []
           | Thrown err \<Rightarrow> [Notify (user_message err) Error]
           | FellThrough lastErr \<Rightarrow>
               [Notify (user_message (case lastErr of Some err \<Rightarrow> err
                   | None \<Rightarrow> new_Error (js ''All retry attempts failed''))) Error])"
    by blast
  from loop_run_success [OF k f s, of pl "resolved_format element format0"
      "length (trimmed_input w)" "now w" None w0]
  obtain w' m where "retry_loop undisturbed cfg ev pl (resolved_format element format0)
      (length (trimmed_input w)) (now w) 1 None w0 = (Returned, w')"
    and "filter is_terminal (trace w') = filter is_terminal (trace w0) @ [Notify m Success]"
    by blast
  with tr t0 have "filter is_terminal
      (trace (snd (processWithAI undisturbed cfg ev element format0 customPrompt w))) =
      filter is_terminal (trace w) @ [Notify m Success]"
    by simp
  then show "\<exists>m. filter is_terminal
      (trace (snd (processWithAI undisturbed cfg ev element format0 customPrompt w))) =
      filter is_terminal (trace w) @ [Notify m Success]"
    by blast
qed

theorem flag_restored_one_outcome_witness:
  "reaches_loop CONFIG (scenario [http_500] (well_formed (js ''Done''))) NullArg (js ''tutorial'')
     (idle_world (js ''Hello'')) \<and>
   fst (processWithAI undisturbed CONFIG (scenario [http_500] (well_formed (js ''Done''))) NullArg
          (js ''tutorial'') None (idle_world (js ''Hello''))) = Resolved \<and>
   \<not> isProcessing (state (snd (processWithAI undisturbed CONFIG
        (scenario [http_500] (well_formed (js ''Done''))) NullArg (js ''tutorial'') None
        (idle_world (js ''Hello''))))) \<and>
   (\<exists>m. filter is_terminal (trace (snd (processWithAI undisturbed CONFIG
        (scenario [http_500] (well_formed (js ''Done''))) NullArg (js ''tutorial'') None
        (idle_world (js ''Hello''))))) = [Notify m Success]) \<and>
   trimmed_input (idle_world (js ''   '')) = [] \<and>
   (\<exists>m. processWithAI undisturbed CONFIG (scenario [] http_500) NullArg (js ''tutorial'') None
          (idle_world (js ''   '')) =
        (Resolved, showNotification m Warning (idle_world (js ''   ''))))"
proof -
  let ?ev = "scenario [http_500] (well_formed (js ''Done''))"
  let ?w = "idle_world (js ''Hello'')"
  have r: "reaches_loop CONFIG ?ev NullArg (js ''tutorial'') ?w"
    by (simp add: run_defs)
  then have a: "accepted CONFIG ?w"
    and n: "\<not> throws (find_button ?ev NullArg (resolved_format NullArg (js ''tutorial'')))"
    by (simp_all add: reaches_loop_def)
  have k: "(1::nat) \<le> 2" "2 \<le> RETRY_ATTEMPTS CONFIG"
    by (simp_all add: CONFIG_def)
  have f: "\<forall>i. 1 \<le> i \<and> i < 2 \<longrightarrow> fails_retryably (responses ?ev i)"
  proof (intro allI impI)
    fix i :: nat
    assume "1 \<le> i \<and> i < 2"
    then have "i = 1" by simp
    then show "fails_retryably (responses ?ev i)"
      by (simp add: fails_retryably_def run_defs)
  qed
  have s: "succeeds (responses ?ev 2)"
    by (simp add: succeeds_def run_defs)
  have e: "trace ?w = []"
    by (simp add: idle_world_def)
  have v: "trimmed_input (idle_world (js ''   '')) = []"
    by (simp add: run_defs)
  from flag_restored_one_outcome [of ?ev NullArg "js ''tutorial''" CONFIG None ?w 2]
    r a n k f s
  have "fst (processWithAI undisturbed CONFIG ?ev NullArg (js ''tutorial'') None ?w) = Resolved"
    and "\<not> isProcessing (state (snd (processWithAI undisturbed CONFIG ?ev NullArg
           (js ''tutorial'') None ?w)))"
    and "\<exists>m. filter is_terminal (trace (snd (processWithAI undisturbed CONFIG ?ev NullArg
           (js ''tutorial'') None ?w))) = [Notify m Success]"
    unfolding e by (simp_all add: idle_world_def idle_state_def)
  moreover
  from flag_restored_one_outcome [of "scenario [] http_500" NullArg "js ''tutorial''" CONFIG None
      "idle_world (js ''   '')" 1] v
  have "\<exists>m. processWithAI undisturbed CONFIG (scenario [] http_500) NullArg (js ''tutorial'') None
          (idle_world (js ''   '')) =
        (Resolved, showNotification m Warning (idle_world (js ''   '')))"
    by simp
  ultimately show ?thesis using r v by blast
qed

text \<open>
  The claim as stated fails in three places.  A validation error during another call leaves
  \<open>isProcessing\<close> set, for it returns before the flag is looked at.  A run whose attempt is
  aborted by the timer, with the fallback enabled as shipped, gives its caller more than one
  outcome: the error notification, and then the text of the local formatter, written to the
  editor and announced.  And a call whose format \<open>tutorial"\<close> breaks the selector of the button
  lookup ends in that lookup, outside \<open>try\<close> and \<open>finally\<close>: the call is rejected, nothing is
  shown and the flag stays set.
\<close>

theorem flag_after_validation_error_counterexample:
  "trimmed_input (busy_world []) = [] \<and>
   isProcessing (state (snd (processWithAI undisturbed CONFIG (scenario [] http_500) NullArg
      (js ''tutorial'') None (busy_world [])))) \<and>
   times_out (responses (scenario [] timed_out) 1) \<and>
   filter user_visible
     (trace (snd (processWithAI undisturbed CONFIG (scenario [] timed_out) NullArg
        (js ''tutorial'') None (idle_world (js ''Hello''))))) =
   [Notify ([0xD83D, 0xDD04] @ js '' Processing attempt 1/3...'') Info,
    Notify ([0x274C] @ js '' Processing failed: Request timed out. The service may be busy, please try again.'') Error,
    Notify ([0xD83D, 0xDD04] @ js '' Trying local fallback formatting...'') Info,
    Input (js ''## Hello''),
    Notify ([0xD83D, 0xDCDD] @ js '' Local formatting applied'') Info] \<and>
   editor (snd (processWithAI undisturbed CONFIG (scenario [] timed_out) NullArg
        (js ''tutorial'') None (idle_world (js ''Hello'')))) = Some (js ''## Hello'') \<and>
   fst (processWithAI undisturbed CONFIG ((scenario [] http_500)\<lparr>querySelector := strict_selector\<rparr>)
          (StringArg (js ''tutorial'' @ [34])) [] None (idle_world (js ''Hello''))) \<noteq> Resolved \<and>
   isProcessing (state (snd (processWithAI undisturbed CONFIG
          ((scenario [] http_500)\<lparr>querySelector := strict_selector\<rparr>)
          (StringArg (js ''tutorial'' @ [34])) [] None (idle_world (js ''Hello''))))) \<and>
   trace (snd (processWithAI undisturbed CONFIG
          ((scenario [] http_500)\<lparr>querySelector := strict_selector\<rparr>)
          (StringArg (js ''tutorial'' @ [34])) [] None (idle_world (js ''Hello'')))) = []"
  by (simp add: times_out_def strict_selector_def run_defs)

text \<open>
  C7, on the code.  The worker answers every attempt with HTTP 500 and the editor holds
  \<open>Hello, world.\<close>, a text that the local formatter leaves as it is.  The formatter is called
  once, but what it returns is not looked at (it returns nothing): it writes its output to the
  editor and announces it itself.  So although the output equals the input, the editor is
  rendered again and the run ends on \<open>Local formatting applied\<close>, shown after the error
  notification, which it replaces.
\<close>

theorem fallback_result_is_ignored:
  "formatAsArticle (js ''Hello, world.'') = js ''Hello, world.'' \<and>
   filter user_visible
     (trace (snd (processWithAI undisturbed CONFIG (scenario [] http_500) NullArg (js ''readme'') None
               (idle_world (js ''Hello, world.''))))) =
   [Notify ([0xD83D, 0xDD04] @ js '' Processing attempt 1/3...'') Info,
    Notify ([0x23F3] @ js '' Retrying in 2 seconds...'') Info,
    Notify ([0xD83D, 0xDD04] @ js '' Processing attempt 2/3...'') Info,
    Notify ([0x23F3] @ js '' Retrying in 4 seconds...'') Info,
    Notify ([0xD83D, 0xDD04] @ js '' Processing attempt 3/3...'') Info,
    Notify ([0x274C] @ js '' Processing failed: Server error. Please try again later.'') Error,
    Notify ([0xD83D, 0xDD04] @ js '' Trying local fallback formatting...'') Info,
    Input (js ''Hello, world.''),
    Notify ([0xD83D, 0xDCDD] @ js '' Local formatting applied'') Info]"
  by (simp add: run_defs)

text \<open>
  C8.  \<open>enrichContent\<close> never raises, for any text, format and settings: it always returns a
  text.  When a step of its body throws, which reading a key of a \<open>null\<close> settings argument
  does, the text returned is the one it was given; with a settings object no step throws and
  the enriched text is returned.
\<close>

theorem enrichContent_never_raises:
  "\<exists>out. fst (enrichContent t0 format st w) = Inr out \<and>
          (\<forall>err. enrich_try t0 format st = Inl err \<longrightarrow> out = t0) \<and>
          (\<forall>enriched. enrich_try t0 format st = Inr enriched \<longrightarrow> out = enriched) \<and>
          (st \<noteq> None \<longrightarrow> (\<exists>enriched. enrich_try t0 format st = Inr enriched))"
  by (cases "enrich_try t0 format st") (auto simp: enrichContent_def enrich_try_def Let_def split: option.splits)

theorem enrichContent_never_raises_witness:
  "fst (enrichContent (js ''Hi'') (js ''tutorial'') None (idle_world [])) = Inr (js ''Hi'')"
  using enrichContent_never_raises [of "js ''Hi''" "js ''tutorial''" None "idle_world []"]
  by (auto simp: enrich_try_def)

subsection \<open>The tweets\<close>

lemma split_nl_replicate:
  "c \<noteq> 10 \<Longrightarrow> split_nl (replicate n c @ 10 # rest) = replicate n c # split_nl rest"
  by (induction n) auto

lemma trim_eq_Nil: "trim s = [] \<longleftrightarrow> (\<forall>c\<in>set s. is_space c)"
proof -
  have "trim s = [] \<longleftrightarrow> (\<forall>c\<in>set (dropWhile is_space s). is_space c)"
    by (simp add: trim_def dropWhile_eq_Nil_conv)
  also have "\<dots> \<longleftrightarrow> dropWhile is_space s = []"
  proof
    assume all: "\<forall>c\<in>set (dropWhile is_space s). is_space c"
    show "dropWhile is_space s = []"
    proof (rule ccontr)
      assume ne: "dropWhile is_space s \<noteq> []"
      then have "\<not> is_space (hd (dropWhile is_space s))" by (rule hd_dropWhile)
      moreover have "hd (dropWhile is_space s) \<in> set (dropWhile is_space s)"
        using ne by simp
      ultimately show False using all by blast
    qed
  next
    assume "dropWhile is_space s = []"
    then have "set (dropWhile is_space s) = {}" by (simp only: set_empty)
    then show "\<forall>c\<in>set (dropWhile is_space s). is_space c" by (simp only: ball_empty)
  qed
  finally have "trim s = [] \<longleftrightarrow> dropWhile is_space s = []" .
  then show ?thesis unfolding dropWhile_eq_Nil_conv .
qed

lemma tweet_loop_bounded:
  assumes "\<forall>t\<in>set tweets. length t \<le> 280" and "length cur \<le> 280"
  shows "\<forall>t\<in>set (tweet_loop lines tweets cur). length t \<le> 280"
  using assms
proof (induction lines arbitrary: tweets cur)
  case Nil
  then show ?case by simp
next
  case (Cons line lines)
  show ?case
  proof (cases "length (cur @ [10] @ line) \<le> 280")
    case True
    then have "length (cur @ (if cur \<noteq> [] then [10] else []) @ line) \<le> 280"
      by simp
    moreover have "tweet_loop (line # lines) tweets cur =
        tweet_loop lines tweets (cur @ (if cur \<noteq> [] then [10] else []) @ line)"
      using True by (simp only: tweet_loop.simps if_True)
    ultimately show ?thesis using Cons.IH [OF Cons.prems(1)] by (simp only:)
  next
    case False
    have a: "\<forall>t\<in>set (if cur \<noteq> [] then tweets @ [cur] else tweets). length t \<le> 280"
      using Cons.prems by simp
    have b: "length (if length line \<le> 280 then line else take 277 line @ js ''...'') \<le> 280"
      by (simp add: js_def)
    have "tweet_loop (line # lines) tweets cur =
        tweet_loop lines (if cur \<noteq> [] then tweets @ [cur] else tweets)
          (if length line \<le> 280 then line else take 277 line @ js ''...'')"
      using False by (simp only: tweet_loop.simps if_False)
    with Cons.IH [OF a b] show ?thesis by (simp only:)
  qed
qed

lemma tweet_bodies_bounded: "\<forall>t\<in>set (tweets_of t0). length t \<le> 280"
  unfolding tweets_of_def by (rule tweet_loop_bounded) simp_all

text \<open>
  C9, on the code.  A text of two lines, the first of 280 letters \<open>a\<close>, the second \<open>b\<close>, becomes
  two tweets.  Each tweet is within 280 code units, as \<open>tweet_bodies_bounded\<close> shows for every
  text, but the chunks are emitted behind their thread numbers, which the limit does not count:
  the first chunk, \<open>1/2\<close>, a blank line and the 280 letters, is 285 code units long.
\<close>

theorem numbered_tweet_exceeds_280:
  "tweets_of (replicate 280 97 @ [10, 98]) = [replicate 280 97, [98]] \<and>
   numbered (tweets_of (replicate 280 97 @ [10, 98])) =
     [js ''1/2'' @ [10, 10] @ replicate 280 97, js ''2/2'' @ [10, 10, 98]] \<and>
   map length (numbered (tweets_of (replicate 280 97 @ [10, 98]))) = [285, 6]"
proof -
  have sp: "split_nl (replicate 280 97 @ [10, 98]) = [replicate 280 97, [98]]"
    using split_nl_replicate [of 97 280 "[98]"] by simp
  have nb: "trim (replicate 280 97) \<noteq> []" "trim [98] \<noteq> []"
    by (simp_all add: trim_eq_Nil is_space_def)
  have tw: "tweets_of (replicate 280 97 @ [10, 98]) = [replicate 280 97, [98]]"
    by (simp add: tweets_of_def sp nb)
  have nu: "numbered [replicate 280 97, [98]] =
      [js ''1/2'' @ [10, 10] @ replicate 280 97, js ''2/2'' @ [10, 10, 98]]"
    by (simp add: numbered_def enumerate_eq_zip show_nat_def digits.simps js_def upt_rec)
  show ?thesis
    unfolding tw nu by (simp add: js_def)
qed

subsection \<open>The error log\<close>

text \<open>
  C10.  After every call to \<open>logError\<close>, \<open>editorState.errors\<close> holds at most 10 entries,
  \<open>editorState.lastError\<close> is the record the call has just built from its arguments and the
  clock, and that record is also the newest entry of \<open>editorState.errors\<close>.  This holds from
  any state, also one whose list was longer than 10 before the call.
\<close>

theorem logError_bounded_and_last:
  "length (errors (state (logError m err c w))) \<le> 10 \<and>
   lastError (state (logError m err c w)) =
     Some \<lparr>message = m, error = map_option err_message err, ctx = c,
           timestamp = now w, stack = map_option stack_of err\<rparr> \<and>
   last (errors (state (logError m err c w))) =
     \<lparr>message = m, error = map_option err_message err, ctx = c,
      timestamp = now w, stack = map_option stack_of err\<rparr>"
  by (simp add: logError_def Let_def emit_def)

end
